theory Spec2Isabelle
  imports Main
begin

section \<open>Raw storage, pointers and the element type\<close>

text \<open>
  A slot of raw storage either holds no object (\<open>Raw\<close>) or a constructed object of the
  element type (\<open>Live\<close>).  The free store is a list of blocks indexed by block number;
  a released block is \<open>None\<close> and its number is never handed out again.  A pointer
  \<open>T*\<close> is the null pointer or a block number with a slot offset.  \<open>limit\<close> is the
  largest request in bytes that \<open>operator new\<close> satisfies; \<open>leaked\<close> collects the
  objects whose storage was reused or released while they were still alive (their
  destructor never ran).
\<close>

datatype 'a slot = Raw | Live 'a

datatype ptr = nullptr | Ptr nat nat

datatype exn = bad_alloc | T_exception

text \<open>
  An operation returns a value and the new state, or leaves by an exception with the
  state it left behind, or has undefined behaviour (a violated precondition of the
  library, a failed \<open>assert\<close>, an access outside a block or to a slot without an
  object).
\<close>

datatype ('r, 's) outcome = Return 'r 's | Throws exn 's | Undefined

record 'a heap =
  blocks :: "'a slot list option list"
  limit :: nat
  leaked :: "'a list"

text \<open>
  The template parameter \<open>T\<close>: its size, the value of \<open>T()\<close> (\<open>None\<close> when the
  default constructor throws), which copies and moves throw (as a function of the
  source object), the state a moved-from object is left in, and the two type traits
  that \<open>Uninitialized_Move_Or_Copy_N\<close> queries.  A constructor or assignment that
  throws leaves both of its operands as they were.
\<close>

record 'a elem_type =
  sizeof_T :: nat
  value_init :: "'a option"
  copy_ctor_throws :: "'a \<Rightarrow> bool"
  move_ctor_throws :: "'a \<Rightarrow> bool"
  copy_assign_throws :: "'a \<Rightarrow> bool"
  move_assign_throws :: "'a \<Rightarrow> bool"
  moved_from :: "'a \<Rightarrow> 'a"
  is_nothrow_move_constructible :: bool
  is_copy_constructible :: bool

text \<open>\<open>size_t\<close> is 64 bits wide: arithmetic that can leave the range wraps.\<close>

definition SIZE_MAX :: nat where
  "SIZE_MAX = 2 ^ 64 - 1"

definition size_t_of :: "nat \<Rightarrow> nat" where
  "size_t_of n = n mod 2 ^ 64"

definition block_at :: "'a heap \<Rightarrow> nat \<Rightarrow> 'a slot list option" where
  "block_at h b = (if b < length (blocks h) then blocks h ! b else None)"

fun slot_at :: "'a heap \<Rightarrow> ptr \<Rightarrow> 'a slot option" where
  "slot_at h nullptr = None"
| "slot_at h (Ptr b i) =
     (case block_at h b of
        None \<Rightarrow> None
      | Some blk \<Rightarrow> if i < length blk then Some (blk ! i) else None)"

fun set_slot :: "ptr \<Rightarrow> 'a slot \<Rightarrow> 'a heap \<Rightarrow> 'a heap" where
  "set_slot nullptr s h = h"
| "set_slot (Ptr b i) s h =
     (case block_at h b of
        None \<Rightarrow> h
      | Some blk \<Rightarrow> h\<lparr>blocks := (blocks h)[b := Some (blk[i := s])]\<rparr>)"

text \<open>
  Pointer arithmetic.  Arithmetic on the null pointer, and stepping below the start of
  a block, give the null pointer, every access through which is undefined.
\<close>

fun ptr_add :: "ptr \<Rightarrow> nat \<Rightarrow> ptr" where
  "ptr_add nullptr n = nullptr"
| "ptr_add (Ptr b i) n = Ptr b (i + n)"

fun ptr_sub :: "ptr \<Rightarrow> nat \<Rightarrow> ptr" where
  "ptr_sub nullptr n = nullptr"
| "ptr_sub (Ptr b i) n = (if n \<le> i then Ptr b (i - n) else nullptr)"

fun ptr_diff :: "ptr \<Rightarrow> ptr \<Rightarrow> int option" where
  "ptr_diff nullptr nullptr = Some 0"
| "ptr_diff (Ptr b i) (Ptr c j) = (if b = c then Some (int i - int j) else None)"
| "ptr_diff nullptr (Ptr c j) = None"
| "ptr_diff (Ptr b i) nullptr = None"

fun live_values :: "'a slot list \<Rightarrow> 'a list" where
  "live_values [] = []"
| "live_values (Raw # ss) = live_values ss"
| "live_values (Live x # ss) = x # live_values ss"

subsection \<open>Sequencing, stack unwinding\<close>

definition and_then ::
  "('r, 's) outcome \<Rightarrow> ('r \<Rightarrow> 's \<Rightarrow> ('q, 's) outcome) \<Rightarrow> ('q, 's) outcome" where
  "and_then m f =
     (case m of
        Return r s \<Rightarrow> f r s
      | Throws e s \<Rightarrow> Throws e s
      | Undefined \<Rightarrow> Undefined)"

text \<open>
  \<open>unwinding m d\<close>: when \<open>m\<close> leaves by an exception, the destructor \<open>d\<close> of a local
  object runs before the exception goes on.
\<close>

definition unwinding ::
  "('r, 's) outcome \<Rightarrow> ('s \<Rightarrow> (unit, 's) outcome) \<Rightarrow> ('r, 's) outcome" where
  "unwinding m d =
     (case m of
        Return r s \<Rightarrow> Return r s
      | Throws e s \<Rightarrow>
          (case d s of
             Return u s' \<Rightarrow> Throws e s'
           | Throws e' s' \<Rightarrow> Undefined
           | Undefined \<Rightarrow> Undefined)
      | Undefined \<Rightarrow> Undefined)"

text \<open>A step on the free store alone, inside a member function of the object \<open>this\<close>.\<close>

definition with_this :: "'v \<Rightarrow> ('r, 'h) outcome \<Rightarrow> ('r, 'v \<times> 'h) outcome" where
  "with_this this m =
     (case m of
        Return r h \<Rightarrow> Return r (this, h)
      | Throws e h \<Rightarrow> Throws e (this, h)
      | Undefined \<Rightarrow> Undefined)"

subsection \<open>The allocation functions and objects in slots\<close>

text \<open>
  \<open>RawMemory::Allocate\<close>: \<open>n != 0 ? operator new(n * sizeof(T)) : nullptr\<close>.  The product
  is a \<open>size_t\<close>; the block holds as many whole slots as the bytes obtained.
\<close>

definition Allocate :: "'a elem_type \<Rightarrow> nat \<Rightarrow> 'a heap \<Rightarrow> (ptr, 'a heap) outcome" where
  "Allocate T n h =
     (if n \<noteq> 0 then
        (let bytes = size_t_of (n * sizeof_T T) in
         if bytes \<le> limit h then
           Return (Ptr (length (blocks h)) 0)
             (h\<lparr>blocks := blocks h @ [Some (replicate (bytes div sizeof_T T) Raw)]\<rparr>)
         else Throws bad_alloc h)
      else Return nullptr h)"

text \<open>\<open>RawMemory::Deallocate\<close>: \<open>operator delete(buf)\<close>.\<close>

fun Deallocate :: "ptr \<Rightarrow> 'a heap \<Rightarrow> (unit, 'a heap) outcome" where
  "Deallocate nullptr h = Return () h"
| "Deallocate (Ptr b i) h =
     (case block_at h b of
        None \<Rightarrow> Undefined
      | Some blk \<Rightarrow>
          if i \<noteq> 0 then Undefined
          else Return () (h\<lparr>blocks := (blocks h)[b := None],
                             leaked := leaked h @ live_values blk\<rparr>))"

text \<open>Placement new of an object with value \<open>x\<close> at \<open>p\<close>.\<close>

definition construct_at :: "ptr \<Rightarrow> 'a \<Rightarrow> 'a heap \<Rightarrow> (unit, 'a heap) outcome" where
  "construct_at p x h =
     (case slot_at h p of
        None \<Rightarrow> Undefined
      | Some Raw \<Rightarrow> Return () (set_slot p (Live x) h)
      | Some (Live y) \<Rightarrow> Return () (set_slot p (Live x) (h\<lparr>leaked := leaked h @ [y]\<rparr>)))"

text \<open>\<open>std::destroy_at(p)\<close>, \<open>p->~T()\<close>.\<close>

definition destroy_at :: "ptr \<Rightarrow> 'a heap \<Rightarrow> (unit, 'a heap) outcome" where
  "destroy_at p h =
     (case slot_at h p of
        Some (Live y) \<Rightarrow> Return () (set_slot p Raw h)
      | Some Raw \<Rightarrow> Undefined
      | None \<Rightarrow> Undefined)"

text \<open>Reading the object at \<open>p\<close>.\<close>

definition deref :: "'a heap \<Rightarrow> ptr \<Rightarrow> 'a option" where
  "deref h p = (case slot_at h p of Some (Live x) \<Rightarrow> Some x | Some Raw \<Rightarrow> None | None \<Rightarrow> None)"

text \<open>
  \<open>new (p) T(value)\<close> for an object \<open>value\<close> of the caller, by copy and by move (the
  caller's object is then left moved-from, which the container does not see), and
  \<open>new (p) T(std::forward<Args>(args)...)\<close>, where \<open>args\<close> is the value the constructor
  builds, \<open>None\<close> when it throws.
\<close>

definition construct_copy :: "'a elem_type \<Rightarrow> 'a \<Rightarrow> ptr \<Rightarrow> 'a heap \<Rightarrow> (unit, 'a heap) outcome" where
  "construct_copy T x p h = (if copy_ctor_throws T x then Throws T_exception h else construct_at p x h)"

definition construct_move :: "'a elem_type \<Rightarrow> 'a \<Rightarrow> ptr \<Rightarrow> 'a heap \<Rightarrow> (unit, 'a heap) outcome" where
  "construct_move T x p h = (if move_ctor_throws T x then Throws T_exception h else construct_at p x h)"

definition construct_args :: "'a option \<Rightarrow> ptr \<Rightarrow> 'a heap \<Rightarrow> (unit, 'a heap) outcome" where
  "construct_args args p h = (case args of None \<Rightarrow> Throws T_exception h | Some x \<Rightarrow> construct_at p x h)"

text \<open>\<open>new (dst) T()\<close>, \<open>new (dst) T(*src)\<close> and \<open>new (dst) T(std::move(*src))\<close>.\<close>

definition value_construct :: "'a elem_type \<Rightarrow> ptr \<Rightarrow> 'a heap \<Rightarrow> (unit, 'a heap) outcome" where
  "value_construct T dst h =
     (case value_init T of None \<Rightarrow> Throws T_exception h | Some d \<Rightarrow> construct_at dst d h)"

definition copy_construct :: "'a elem_type \<Rightarrow> ptr \<Rightarrow> ptr \<Rightarrow> 'a heap \<Rightarrow> (unit, 'a heap) outcome" where
  "copy_construct T src dst h =
     (case deref h src of
        None \<Rightarrow> Undefined
      | Some x \<Rightarrow> if copy_ctor_throws T x then Throws T_exception h else construct_at dst x h)"

definition move_construct :: "'a elem_type \<Rightarrow> ptr \<Rightarrow> ptr \<Rightarrow> 'a heap \<Rightarrow> (unit, 'a heap) outcome" where
  "move_construct T src dst h =
     (case deref h src of
        None \<Rightarrow> Undefined
      | Some x \<Rightarrow>
          if move_ctor_throws T x then Throws T_exception h
          else and_then (construct_at dst x h)
                 (\<lambda>u h'. Return () (set_slot src (Live (moved_from T x)) h')))"

text \<open>\<open>*dst = *src\<close>, \<open>*dst = std::move(*src)\<close> and \<open>*dst = std::move(temp)\<close> for a local \<open>temp\<close>.\<close>

definition copy_assign :: "'a elem_type \<Rightarrow> ptr \<Rightarrow> ptr \<Rightarrow> 'a heap \<Rightarrow> (unit, 'a heap) outcome" where
  "copy_assign T src dst h =
     (case (deref h src, deref h dst) of
        (Some x, Some y) \<Rightarrow>
          if copy_assign_throws T x then Throws T_exception h
          else Return () (set_slot dst (Live x) h)
      | _ \<Rightarrow> Undefined)"

definition move_assign :: "'a elem_type \<Rightarrow> ptr \<Rightarrow> ptr \<Rightarrow> 'a heap \<Rightarrow> (unit, 'a heap) outcome" where
  "move_assign T src dst h =
     (case (deref h src, deref h dst) of
        (Some x, Some y) \<Rightarrow>
          if move_assign_throws T x then Throws T_exception h
          else Return () (set_slot src (Live (moved_from T x)) (set_slot dst (Live x) h))
      | _ \<Rightarrow> Undefined)"

definition move_assign_from :: "'a elem_type \<Rightarrow> 'a \<Rightarrow> ptr \<Rightarrow> 'a heap \<Rightarrow> (unit, 'a heap) outcome" where
  "move_assign_from T x dst h =
     (case deref h dst of
        Some y \<Rightarrow>
          if move_assign_throws T x then Throws T_exception h
          else Return () (set_slot dst (Live x) h)
      | None \<Rightarrow> Undefined)"

subsection \<open>The library algorithms the container calls\<close>

text \<open>\<open>std::destroy_n(first, n)\<close>.\<close>

fun destroy_n :: "ptr \<Rightarrow> nat \<Rightarrow> 'a heap \<Rightarrow> (unit, 'a heap) outcome" where
  "destroy_n first 0 h = Return () h"
| "destroy_n first (Suc n) h =
     and_then (destroy_at first h) (\<lambda>u h'. destroy_n (ptr_add first 1) n h')"

text \<open>
  \<open>std::uninitialized_value_construct_n\<close>, \<open>std::uninitialized_copy_n\<close> and
  \<open>std::uninitialized_move_n\<close>: the objects are constructed in order; when the
  construction of the object number \<open>k\<close> throws, the \<open>k\<close> objects already constructed
  in the destination are destroyed and the exception goes on.
\<close>

fun uninitialized_value_construct_from ::
  "'a elem_type \<Rightarrow> ptr \<Rightarrow> nat \<Rightarrow> nat \<Rightarrow> 'a heap \<Rightarrow> (unit, 'a heap) outcome" where
  "uninitialized_value_construct_from T first k 0 h = Return () h"
| "uninitialized_value_construct_from T first k (Suc n) h =
     and_then (unwinding (value_construct T (ptr_add first k) h) (destroy_n first k))
       (\<lambda>u h'. uninitialized_value_construct_from T first (Suc k) n h')"

definition uninitialized_value_construct_n ::
  "'a elem_type \<Rightarrow> ptr \<Rightarrow> nat \<Rightarrow> 'a heap \<Rightarrow> (unit, 'a heap) outcome" where
  "uninitialized_value_construct_n T first n h = uninitialized_value_construct_from T first 0 n h"

fun uninitialized_copy_from ::
  "'a elem_type \<Rightarrow> ptr \<Rightarrow> ptr \<Rightarrow> nat \<Rightarrow> nat \<Rightarrow> 'a heap \<Rightarrow> (unit, 'a heap) outcome" where
  "uninitialized_copy_from T first d_first k 0 h = Return () h"
| "uninitialized_copy_from T first d_first k (Suc n) h =
     and_then
       (unwinding (copy_construct T (ptr_add first k) (ptr_add d_first k) h) (destroy_n d_first k))
       (\<lambda>u h'. uninitialized_copy_from T first d_first (Suc k) n h')"

definition uninitialized_copy_n ::
  "'a elem_type \<Rightarrow> ptr \<Rightarrow> nat \<Rightarrow> ptr \<Rightarrow> 'a heap \<Rightarrow> (unit, 'a heap) outcome" where
  "uninitialized_copy_n T first n d_first h = uninitialized_copy_from T first d_first 0 n h"

fun uninitialized_move_from ::
  "'a elem_type \<Rightarrow> ptr \<Rightarrow> ptr \<Rightarrow> nat \<Rightarrow> nat \<Rightarrow> 'a heap \<Rightarrow> (unit, 'a heap) outcome" where
  "uninitialized_move_from T first d_first k 0 h = Return () h"
| "uninitialized_move_from T first d_first k (Suc n) h =
     and_then
       (unwinding (move_construct T (ptr_add first k) (ptr_add d_first k) h) (destroy_n d_first k))
       (\<lambda>u h'. uninitialized_move_from T first d_first (Suc k) n h')"

definition uninitialized_move_n ::
  "'a elem_type \<Rightarrow> ptr \<Rightarrow> nat \<Rightarrow> ptr \<Rightarrow> 'a heap \<Rightarrow> (unit, 'a heap) outcome" where
  "uninitialized_move_n T first n d_first h = uninitialized_move_from T first d_first 0 n h"

text \<open>
  \<open>std::move_backward(first, last, d_last)\<close>:
  \<open>while (first != last) *(--d_last) = std::move(*(--last));\<close>.
  The library requires \<open>[first, last)\<close> to be a valid range.  (\<open>start\<close>, \<open>stop\<close> and
  \<open>d_end\<close> stand for \<open>first\<close>, \<open>last\<close> and \<open>d_last\<close>.)
\<close>

fun move_backward_loop ::
  "'a elem_type \<Rightarrow> ptr \<Rightarrow> ptr \<Rightarrow> nat \<Rightarrow> 'a heap \<Rightarrow> (ptr, 'a heap) outcome" where
  "move_backward_loop T stop d_end 0 h = Return d_end h"
| "move_backward_loop T stop d_end (Suc n) h =
     and_then (move_assign T (ptr_sub stop 1) (ptr_sub d_end 1) h)
       (\<lambda>u h'. move_backward_loop T (ptr_sub stop 1) (ptr_sub d_end 1) n h')"

definition move_backward ::
  "'a elem_type \<Rightarrow> ptr \<Rightarrow> ptr \<Rightarrow> ptr \<Rightarrow> 'a heap \<Rightarrow> (ptr, 'a heap) outcome" where
  "move_backward T start stop d_end h =
     (case ptr_diff stop start of
        None \<Rightarrow> Undefined
      | Some d \<Rightarrow> if d < 0 then Undefined else move_backward_loop T stop d_end (nat d) h)"

section \<open>RawMemory\<close>

text \<open>
  The members \<open>buffer_\<close> and \<open>capacity_\<close> (and \<open>data_\<close>, \<open>size_\<close> of the vector
  below) carry a prime, since a name cannot end with an underscore here.
\<close>

record RawMemory =
  buffer_' :: ptr
  capacity_' :: nat

text \<open>\<open>RawMemory() = default\<close> and \<open>explicit RawMemory(size_t capacity)\<close>.\<close>

definition RawMemory_default :: RawMemory where
  "RawMemory_default = \<lparr>buffer_' = nullptr, capacity_' = 0\<rparr>"

definition RawMemory_ctor :: "'a elem_type \<Rightarrow> nat \<Rightarrow> 'a heap \<Rightarrow> (RawMemory, 'a heap) outcome" where
  "RawMemory_ctor T capacity h =
     and_then (Allocate T capacity h) (\<lambda>p h'. Return \<lparr>buffer_' = p, capacity_' = capacity\<rparr> h')"

text \<open>\<open>RawMemory::Swap\<close>; the pair is \<open>*this\<close> and \<open>other\<close> afterwards.\<close>

definition RawMemory_Swap :: "RawMemory \<Rightarrow> RawMemory \<Rightarrow> RawMemory \<times> RawMemory" where
  "RawMemory_Swap this other =
     (this\<lparr>buffer_' := buffer_' other, capacity_' := capacity_' other\<rparr>,
      other\<lparr>buffer_' := buffer_' this, capacity_' := capacity_' this\<rparr>)"

text \<open>\<open>RawMemory(RawMemory&& other)\<close>; the pair is the new object and \<open>other\<close> afterwards.\<close>

definition RawMemory_move_ctor :: "RawMemory \<Rightarrow> RawMemory \<times> RawMemory" where
  "RawMemory_move_ctor other = RawMemory_Swap \<lparr>buffer_' = nullptr, capacity_' = 0\<rparr> other"

text \<open>
  \<open>operator=(RawMemory&& rhs)\<close>.  Objects are passed by value here, so the outcome of
  the address comparison \<open>this != &rhs\<close> is the first argument.
\<close>

definition RawMemory_move_assign :: "bool \<Rightarrow> RawMemory \<Rightarrow> RawMemory \<Rightarrow> RawMemory \<times> RawMemory" where
  "RawMemory_move_assign this_ne_rhs this rhs =
     (if this_ne_rhs then RawMemory_Swap this rhs else (this, rhs))"

text \<open>\<open>~RawMemory()\<close>.\<close>

definition RawMemory_dtor :: "RawMemory \<Rightarrow> 'a heap \<Rightarrow> (unit, 'a heap) outcome" where
  "RawMemory_dtor this h = Deallocate (buffer_' this) h"

text \<open>\<open>operator+\<close> (with its \<open>assert\<close>), \<open>operator[]\<close>, \<open>GetAddress\<close> and \<open>Capacity\<close>.\<close>

definition RawMemory_plus :: "RawMemory \<Rightarrow> nat \<Rightarrow> ptr option" where
  "RawMemory_plus this offset =
     (if offset \<le> capacity_' this then Some (ptr_add (buffer_' this) offset) else None)"

definition RawMemory_at :: "'a heap \<Rightarrow> RawMemory \<Rightarrow> nat \<Rightarrow> 'a option" where
  "RawMemory_at h this index = deref h (ptr_add (buffer_' this) index)"

definition GetAddress :: "RawMemory \<Rightarrow> ptr" where
  "GetAddress this = buffer_' this"

definition RawMemory_Capacity :: "RawMemory \<Rightarrow> nat" where
  "RawMemory_Capacity this = capacity_' this"

text \<open>
  \<open>std::swap(a, b)\<close> on two \<open>RawMemory\<close> objects:
  \<open>RawMemory tmp(std::move(a)); a = std::move(b); b = std::move(tmp);\<close>,
  then \<open>tmp\<close> is destroyed.  When \<open>a\<close> and \<open>b\<close> are one object (\<open>a_ne_b\<close> is false)
  the three steps act on that one object.
\<close>

definition std_swap_RawMemory ::
  "bool \<Rightarrow> RawMemory \<Rightarrow> RawMemory \<Rightarrow> 'a heap \<Rightarrow> (RawMemory \<times> RawMemory, 'a heap) outcome" where
  "std_swap_RawMemory a_ne_b a b h =
     (if a_ne_b then
        (case RawMemory_move_ctor a of (tmp, a1) \<Rightarrow>
         case RawMemory_move_assign True a1 b of (a2, b1) \<Rightarrow>
         case RawMemory_move_assign True b1 tmp of (b2, tmp1) \<Rightarrow>
           and_then (RawMemory_dtor tmp1 h) (\<lambda>u h'. Return (a2, b2) h'))
      else
        (case RawMemory_move_ctor a of (tmp, a1) \<Rightarrow>
         case RawMemory_move_assign False a1 a1 of (a2, a2') \<Rightarrow>
         case RawMemory_move_assign True a2 tmp of (a3, tmp1) \<Rightarrow>
           and_then (RawMemory_dtor tmp1 h) (\<lambda>u h'. Return (a3, a3) h')))"

section \<open>Vector\<close>

record Vector =
  data_' :: RawMemory
  size_' :: nat

text \<open>
  A member function takes \<open>*this\<close> and the free store and gives both back, also when
  it leaves by an exception.  \<open>commit this m\<close> closes a block \<open>m\<close> that computes the new
  \<open>*this\<close> on the free store: when \<open>m\<close> throws, \<open>*this\<close> is still \<open>this\<close>.
\<close>

definition commit :: "'v \<Rightarrow> ('v, 'h) outcome \<Rightarrow> (unit, 'v \<times> 'h) outcome" where
  "commit this m =
     (case m of
        Return this1 h \<Rightarrow> Return () (this1, h)
      | Throws e h \<Rightarrow> Throws e (this, h)
      | Undefined \<Rightarrow> Undefined)"

text \<open>\<open>Vector() = default\<close>, \<open>Size\<close>, \<open>Capacity\<close>, \<open>begin\<close>, \<open>end\<close>, \<open>operator[]\<close> with its \<open>assert\<close>.\<close>

definition Vector_default :: Vector where
  "Vector_default = \<lparr>data_' = RawMemory_default, size_' = 0\<rparr>"

definition Size :: "Vector \<Rightarrow> nat" where
  "Size this = size_' this"

definition Capacity :: "Vector \<Rightarrow> nat" where
  "Capacity this = RawMemory_Capacity (data_' this)"

definition Vector_begin :: "Vector \<Rightarrow> ptr" where
  "Vector_begin this = GetAddress (data_' this)"

definition Vector_end :: "Vector \<Rightarrow> ptr" where
  "Vector_end this = ptr_add (GetAddress (data_' this)) (size_' this)"

definition Vector_at :: "'a heap \<Rightarrow> Vector \<Rightarrow> nat \<Rightarrow> 'a option" where
  "Vector_at h this index = (if index < size_' this then RawMemory_at h (data_' this) index else None)"

text \<open>\<open>Uninitialized_Move_Or_Copy_N\<close>.\<close>

definition Uninitialized_Move_Or_Copy_N ::
  "'a elem_type \<Rightarrow> ptr \<Rightarrow> nat \<Rightarrow> ptr \<Rightarrow> 'a heap \<Rightarrow> (unit, 'a heap) outcome" where
  "Uninitialized_Move_Or_Copy_N T first n new_begin h =
     (if is_nothrow_move_constructible T \<or> \<not> is_copy_constructible T
      then uninitialized_move_n T first n new_begin h
      else uninitialized_copy_n T first n new_begin h)"

text \<open>
  \<open>Vector::Swap\<close>: \<open>std::swap(data_, other.data_); std::swap(size_, other.size_);\<close>.
  The first argument tells whether \<open>other\<close> is another object than \<open>*this\<close>; the result
  is \<open>*this\<close> and \<open>other\<close> afterwards.
\<close>

definition Vector_Swap ::
  "bool \<Rightarrow> Vector \<Rightarrow> Vector \<Rightarrow> 'a heap \<Rightarrow> (Vector \<times> Vector, 'a heap) outcome" where
  "Vector_Swap this_ne_other this other h =
     and_then (std_swap_RawMemory this_ne_other (data_' this) (data_' other) h)
       (\<lambda>(d1, d2) h1.
          Return (\<lparr>data_' = d1, size_' = size_' other\<rparr>, \<lparr>data_' = d2, size_' = size_' this\<rparr>) h1)"

text \<open>\<open>explicit Vector(size_t size)\<close>, \<open>Vector(const Vector& other)\<close>, \<open>Vector(Vector&& other)\<close>, \<open>~Vector()\<close>.\<close>

definition Vector_ctor :: "'a elem_type \<Rightarrow> nat \<Rightarrow> 'a heap \<Rightarrow> (Vector, 'a heap) outcome" where
  "Vector_ctor T sz h =
     and_then (RawMemory_ctor T sz h)
       (\<lambda>data h1.
          and_then
            (unwinding (uninitialized_value_construct_n T (GetAddress data) sz h1)
               (RawMemory_dtor data))
            (\<lambda>u h2. Return \<lparr>data_' = data, size_' = sz\<rparr> h2))"

definition Vector_copy_ctor :: "'a elem_type \<Rightarrow> Vector \<Rightarrow> 'a heap \<Rightarrow> (Vector, 'a heap) outcome" where
  "Vector_copy_ctor T other h =
     and_then (RawMemory_ctor T (size_' other) h)
       (\<lambda>data h1.
          and_then
            (unwinding
               (uninitialized_copy_n T (GetAddress (data_' other)) (size_' other) (GetAddress data) h1)
               (RawMemory_dtor data))
            (\<lambda>u h2. Return \<lparr>data_' = data, size_' = size_' other\<rparr> h2))"

definition Vector_move_ctor ::
  "'a elem_type \<Rightarrow> Vector \<Rightarrow> 'a heap \<Rightarrow> (Vector \<times> Vector, 'a heap) outcome" where
  "Vector_move_ctor T other h =
     and_then (RawMemory_ctor T 0 h)
       (\<lambda>data h1. Vector_Swap True \<lparr>data_' = data, size_' = 0\<rparr> other h1)"

definition Vector_dtor :: "Vector \<Rightarrow> 'a heap \<Rightarrow> (unit, 'a heap) outcome" where
  "Vector_dtor this h =
     and_then (destroy_n (GetAddress (data_' this)) (size_' this) h)
       (\<lambda>u h1. RawMemory_dtor (data_' this) h1)"

text \<open>\<open>Reserve\<close>.\<close>

definition Reserve ::
  "'a elem_type \<Rightarrow> nat \<Rightarrow> Vector \<Rightarrow> 'a heap \<Rightarrow> (unit, Vector \<times> 'a heap) outcome" where
  "Reserve T new_capacity this h =
     (if new_capacity \<le> RawMemory_Capacity (data_' this) then Return () (this, h)
      else
        commit this
          (and_then (RawMemory_ctor T new_capacity h) (\<lambda>new_data h1.
           and_then
             (unwinding
                (and_then
                   (Uninitialized_Move_Or_Copy_N T (GetAddress (data_' this)) (size_' this)
                      (GetAddress new_data) h1) (\<lambda>u h2.
                 destroy_n (GetAddress (data_' this)) (size_' this) h2))
                (RawMemory_dtor new_data)) (\<lambda>u h3.
           case RawMemory_Swap (data_' this) new_data of (data1, new_data1) \<Rightarrow>
           and_then (RawMemory_dtor new_data1 h3) (\<lambda>u h4.
           Return (this\<lparr>data_' := data1\<rparr>) h4)))))"

text \<open>\<open>operator=(const Vector& rhs)\<close>; its first argument is \<open>this != &rhs\<close>.\<close>

fun copy_assign_loop ::
  "'a elem_type \<Rightarrow> Vector \<Rightarrow> Vector \<Rightarrow> nat \<Rightarrow> nat \<Rightarrow> 'a heap \<Rightarrow> (unit, 'a heap) outcome" where
  "copy_assign_loop T this rhs i 0 h = Return () h"
| "copy_assign_loop T this rhs i (Suc n) h =
     and_then
       (if i < Size rhs
        then copy_assign T (ptr_add (buffer_' (data_' rhs)) i) (ptr_add (buffer_' (data_' this)) i) h
        else destroy_at (ptr_add (buffer_' (data_' this)) i) h)
       (\<lambda>u h'. copy_assign_loop T this rhs (Suc i) n h')"

definition Vector_copy_assign ::
  "'a elem_type \<Rightarrow> bool \<Rightarrow> Vector \<Rightarrow> Vector \<Rightarrow> 'a heap \<Rightarrow> (unit, Vector \<times> 'a heap) outcome" where
  "Vector_copy_assign T this_ne_rhs this rhs h =
     (if this_ne_rhs then
        and_then
          (if Size rhs > RawMemory_Capacity (data_' this) then
             commit this
               (and_then (Vector_copy_ctor T rhs h) (\<lambda>rhs_copy h1.
                and_then (Vector_Swap True this rhs_copy h1) (\<lambda>(this1, rhs_copy1) h2.
                and_then (Vector_dtor rhs_copy1 h2) (\<lambda>u h3.
                Return this1 h3))))
           else
             with_this this
               (and_then (copy_assign_loop T this rhs 0 (size_' this) h) (\<lambda>u h1.
                if Size rhs > size_' this then
                  uninitialized_copy_n T (ptr_add (GetAddress (data_' rhs)) (size_' this))
                    (Size rhs - size_' this) (ptr_add (GetAddress (data_' this)) (size_' this)) h1
                else Return () h1)))
          (\<lambda>u (this1, h1). Return () (this1\<lparr>size_' := Size rhs\<rparr>, h1))
      else Return () (this, h))"

text \<open>\<open>operator=(Vector&& rhs)\<close>; the result is \<open>*this\<close> and \<open>rhs\<close> afterwards.\<close>

definition Vector_move_assign ::
  "bool \<Rightarrow> Vector \<Rightarrow> Vector \<Rightarrow> 'a heap \<Rightarrow> (Vector \<times> Vector, 'a heap) outcome" where
  "Vector_move_assign this_ne_rhs this rhs h = Vector_Swap this_ne_rhs this rhs h"

text \<open>\<open>Resize\<close>.\<close>

definition Resize ::
  "'a elem_type \<Rightarrow> nat \<Rightarrow> Vector \<Rightarrow> 'a heap \<Rightarrow> (unit, Vector \<times> 'a heap) outcome" where
  "Resize T new_size this h =
     and_then (Reserve T new_size this h) (\<lambda>u (this1, h1).
     and_then
       (with_this this1
          (if size_' this1 > new_size then
             destroy_n (ptr_add (GetAddress (data_' this1)) new_size) (size_' this1 - new_size) h1
           else if size_' this1 < new_size then
             uninitialized_value_construct_n T (ptr_add (GetAddress (data_' this1)) (size_' this1))
               (new_size - size_' this1) h1
           else Return () h1)) (\<lambda>u (this2, h2).
     Return () (this2\<lparr>size_' := new_size\<rparr>, h2)))"

text \<open>\<open>PushBack(const T& value)\<close>.\<close>

definition PushBack_copy ::
  "'a elem_type \<Rightarrow> 'a \<Rightarrow> Vector \<Rightarrow> 'a heap \<Rightarrow> (unit, Vector \<times> 'a heap) outcome" where
  "PushBack_copy T val this h =
     and_then
       (if size_' this = Capacity this then
          (if size_' this = 0 then
             and_then (Reserve T 1 this h) (\<lambda>u (this1, h1).
             with_this this1
               (construct_copy T val (ptr_add (GetAddress (data_' this1)) (size_' this1)) h1))
           else
             commit this
               (and_then (RawMemory_ctor T (size_t_of (size_' this * 2)) h) (\<lambda>new_data h1.
                and_then
                  (unwinding
                     (and_then
                        (construct_copy T val (ptr_add (GetAddress new_data) (size_' this)) h1) (\<lambda>u h2.
                      and_then
                        (Uninitialized_Move_Or_Copy_N T (GetAddress (data_' this)) (size_' this)
                           (GetAddress new_data) h2) (\<lambda>u h3.
                      destroy_n (GetAddress (data_' this)) (size_' this) h3)))
                     (RawMemory_dtor new_data)) (\<lambda>u h4.
                case RawMemory_Swap (data_' this) new_data of (data1, new_data1) \<Rightarrow>
                and_then (RawMemory_dtor new_data1 h4) (\<lambda>u h5.
                Return (this\<lparr>data_' := data1\<rparr>) h5)))))
        else
          with_this this (construct_copy T val (ptr_add (GetAddress (data_' this)) (size_' this)) h))
       (\<lambda>u (this1, h1). Return () (this1\<lparr>size_' := size_t_of (size_' this1 + 1)\<rparr>, h1))"

text \<open>\<open>PushBack(T&& value)\<close>.\<close>

definition PushBack_move ::
  "'a elem_type \<Rightarrow> 'a \<Rightarrow> Vector \<Rightarrow> 'a heap \<Rightarrow> (unit, Vector \<times> 'a heap) outcome" where
  "PushBack_move T val this h =
     and_then
       (if size_' this = Capacity this then
          (if size_' this = 0 then
             and_then (Reserve T 1 this h) (\<lambda>u (this1, h1).
             with_this this1
               (construct_move T val (ptr_add (GetAddress (data_' this1)) (size_' this1)) h1))
           else
             commit this
               (and_then (RawMemory_ctor T (size_t_of (size_' this * 2)) h) (\<lambda>new_data h1.
                and_then
                  (unwinding
                     (and_then
                        (construct_move T val (ptr_add (GetAddress new_data) (size_' this)) h1) (\<lambda>u h2.
                      and_then
                        (Uninitialized_Move_Or_Copy_N T (GetAddress (data_' this)) (size_' this)
                           (GetAddress new_data) h2) (\<lambda>u h3.
                      destroy_n (GetAddress (data_' this)) (size_' this) h3)))
                     (RawMemory_dtor new_data)) (\<lambda>u h4.
                case RawMemory_Swap (data_' this) new_data of (data1, new_data1) \<Rightarrow>
                and_then (RawMemory_dtor new_data1 h4) (\<lambda>u h5.
                Return (this\<lparr>data_' := data1\<rparr>) h5)))))
        else
          with_this this (construct_move T val (ptr_add (GetAddress (data_' this)) (size_' this)) h))
       (\<lambda>u (this1, h1). Return () (this1\<lparr>size_' := size_t_of (size_' this1 + 1)\<rparr>, h1))"

text \<open>\<open>EmplaceBack(Args&&... args)\<close>; the reference it returns is the address of the new element.\<close>

definition EmplaceBack ::
  "'a elem_type \<Rightarrow> 'a option \<Rightarrow> Vector \<Rightarrow> 'a heap \<Rightarrow> (ptr, Vector \<times> 'a heap) outcome" where
  "EmplaceBack T args this h =
     and_then
       (if size_' this = Capacity this then
          (if size_' this = 0 then
             and_then (Reserve T 1 this h) (\<lambda>u (this1, h1).
             with_this this1
               (construct_args args (ptr_add (GetAddress (data_' this1)) (size_' this1)) h1))
           else
             commit this
               (and_then (RawMemory_ctor T (size_t_of (size_' this * 2)) h) (\<lambda>new_data h1.
                and_then
                  (unwinding
                     (and_then
                        (construct_args args (ptr_add (GetAddress new_data) (size_' this)) h1) (\<lambda>u h2.
                      and_then
                        (Uninitialized_Move_Or_Copy_N T (GetAddress (data_' this)) (size_' this)
                           (GetAddress new_data) h2) (\<lambda>u h3.
                      destroy_n (GetAddress (data_' this)) (size_' this) h3)))
                     (RawMemory_dtor new_data)) (\<lambda>u h4.
                case RawMemory_Swap (data_' this) new_data of (data1, new_data1) \<Rightarrow>
                and_then (RawMemory_dtor new_data1 h4) (\<lambda>u h5.
                Return (this\<lparr>data_' := data1\<rparr>) h5)))))
        else
          with_this this (construct_args args (ptr_add (GetAddress (data_' this)) (size_' this)) h))
       (\<lambda>u (this1, h1). 
          (let this2 = this1\<lparr>size_' := size_t_of (size_' this1 + 1)\<rparr>
           in Return (ptr_add (buffer_' (data_' this2)) (size_' this2 - 1)) (this2, h1)))"

text \<open>\<open>PopBack\<close>.\<close>

definition PopBack :: "Vector \<Rightarrow> 'a heap \<Rightarrow> (unit, Vector \<times> 'a heap) outcome" where
  "PopBack this h =
     (if size_' this > 0 then
        and_then
          (with_this this
             (destroy_at (ptr_sub (ptr_add (GetAddress (data_' this)) (size_' this)) 1) h))
          (\<lambda>u (this1, h1). Return () (this1\<lparr>size_' := size_' this1 - 1\<rparr>, h1))
      else Return () (this, h))"

text \<open>
  \<open>Emplace(const_iterator pos, Args&&... args)\<close>.  A failed \<open>assert\<close> and a position
  that does not point into the vector's storage are undefined.  \<open>std::forward<T>\<close> of an
  lvalue of type \<open>T\<close> is an rvalue: the last element and \<open>temp\<close> are moved from.
\<close>

definition Emplace ::
  "'a elem_type \<Rightarrow> ptr \<Rightarrow> 'a option \<Rightarrow> Vector \<Rightarrow> 'a heap \<Rightarrow> (ptr, Vector \<times> 'a heap) outcome" where
  "Emplace T pos args this h =
     (case (ptr_diff pos (Vector_begin this), ptr_diff (Vector_end this) pos) of
        (Some d, Some e) \<Rightarrow>
          if 0 \<le> d \<and> 0 \<le> e then
            (let pos_num = nat d in
             and_then
               (if size_' this = Capacity this then
                  (if size_' this = 0 then
                     and_then (Reserve T 1 this h) (\<lambda>u (this1, h1).
                     with_this this1
                       (and_then (construct_args args (Vector_end this1) h1) (\<lambda>u h2.
                        Return (Vector_end this1) h2)))
                   else
                     (case
                        and_then (RawMemory_ctor T (size_t_of (size_' this * 2)) h) (\<lambda>new_data h1.
                        and_then
                          (unwinding
                             (and_then
                                (construct_args args (ptr_add (GetAddress new_data) pos_num) h1) (\<lambda>u h2.
                              and_then
                                (Uninitialized_Move_Or_Copy_N T (Vector_begin this) pos_num
                                   (GetAddress new_data) h2) (\<lambda>u h3.
                              and_then
                                (Uninitialized_Move_Or_Copy_N T (ptr_add (Vector_begin this) pos_num)
                                   (size_' this - pos_num)
                                   (ptr_add (GetAddress new_data) (pos_num + 1)) h3) (\<lambda>u h4.
                              destroy_n (Vector_begin this) (size_' this) h4))))
                             (RawMemory_dtor new_data)) (\<lambda>u h5.
                        case RawMemory_Swap (data_' this) new_data of (data1, new_data1) \<Rightarrow>
                        and_then (RawMemory_dtor new_data1 h5) (\<lambda>u h6.
                        Return (ptr_add (GetAddress new_data) pos_num, this\<lparr>data_' := data1\<rparr>) h6)))
                      of
                        Return (elem_pos, this1) h' \<Rightarrow> Return elem_pos (this1, h')
                      | Throws ex h' \<Rightarrow> Throws ex (this, h')
                      | Undefined \<Rightarrow> Undefined))
                else
                  (if size_' this \<noteq> 0 then
                     (case args of
                        None \<Rightarrow> Throws T_exception (this, h)
                      | Some temp \<Rightarrow>
                          with_this this
                            (and_then
                               (move_construct T (ptr_sub (Vector_end this) 1) (Vector_end this) h) (\<lambda>u h1.
                             and_then
                               (move_backward T (ptr_add (Vector_begin this) pos_num)
                                  (ptr_sub (Vector_end this) 1) (Vector_end this) h1) (\<lambda>r h2.
                             and_then
                               (move_assign_from T temp (ptr_add (Vector_begin this) pos_num) h2) (\<lambda>u h3.
                             Return (ptr_add (Vector_begin this) pos_num) h3)))))
                   else
                     with_this this
                       (and_then
                          (construct_args args (ptr_add (Vector_begin this) pos_num) h) (\<lambda>u h1.
                        Return (ptr_add (Vector_begin this) pos_num) h1))))
               (\<lambda>elem_pos (this1, h1).
                  Return elem_pos (this1\<lparr>size_' := size_t_of (size_' this1 + 1)\<rparr>, h1)))
          else Undefined
      | _ \<Rightarrow> Undefined)"

text \<open>\<open>Insert(const_iterator pos, const T& value)\<close> and \<open>Insert(const_iterator pos, T&& value)\<close>.\<close>

definition Insert_copy ::
  "'a elem_type \<Rightarrow> ptr \<Rightarrow> 'a \<Rightarrow> Vector \<Rightarrow> 'a heap \<Rightarrow> (ptr, Vector \<times> 'a heap) outcome" where
  "Insert_copy T pos val this h =
     Emplace T pos (if copy_ctor_throws T val then None else Some val) this h"

definition Insert_move ::
  "'a elem_type \<Rightarrow> ptr \<Rightarrow> 'a \<Rightarrow> Vector \<Rightarrow> 'a heap \<Rightarrow> (ptr, Vector \<times> 'a heap) outcome" where
  "Insert_move T pos val this h =
     Emplace T pos (if move_ctor_throws T val then None else Some val) this h"

section \<open>Notions for the proofs\<close>

text \<open>
  \<open>fill j ss blk\<close> overwrites the slots of \<open>blk\<close> from offset \<open>j\<close> with \<open>ss\<close>, \<open>put_block\<close>
  replaces a block of the free store, \<open>shape\<close> is the length of every block.
  \<open>Vector_inv\<close> is the representation invariant of a \<open>Vector<T>\<close>: the buffer is null
  with size and capacity 0, or it is the start of a block in which the first \<open>size_\<close>
  slots hold objects and the others are raw.
\<close>

definition fill :: "nat \<Rightarrow> 'a list \<Rightarrow> 'a list \<Rightarrow> 'a list" where
  "fill j ss blk = take j blk @ ss @ drop (j + length ss) blk"

definition put_block :: "nat \<Rightarrow> 'a slot list \<Rightarrow> 'a heap \<Rightarrow> 'a heap" where
  "put_block b blk h = h\<lparr>blocks := (blocks h)[b := Some blk]\<rparr>"

fun is_Live :: "'a slot \<Rightarrow> bool" where
  "is_Live Raw = False"
| "is_Live (Live x) = True"

definition shape :: "'a heap \<Rightarrow> nat option list" where
  "shape h = map (map_option length) (blocks h)"

fun is_Raw :: "'a slot \<Rightarrow> bool" where
  "is_Raw Raw = True"
| "is_Raw (Live x) = False"

definition Vector_inv :: "'a elem_type \<Rightarrow> 'a heap \<Rightarrow> Vector \<Rightarrow> bool" where
  "Vector_inv T h this \<longleftrightarrow>
     0 < sizeof_T T \<and>
     (case buffer_' (data_' this) of
        nullptr \<Rightarrow> size_' this = 0 \<and> capacity_' (data_' this) = 0
      | Ptr b i \<Rightarrow>
          i = 0 \<and>
          (case block_at h b of
             None \<Rightarrow> False
           | Some blk \<Rightarrow>
               size_' this \<le> length blk \<and> length blk \<le> capacity_' (data_' this) \<and>
               length blk * sizeof_T T \<le> SIZE_MAX \<and>
               list_all is_Live (take (size_' this) blk) \<and>
               list_all is_Raw (drop (size_' this) blk)))"

definition src_after :: "'a elem_type \<Rightarrow> 'a list \<Rightarrow> 'a list" where
  "src_after T xs =
     (if is_nothrow_move_constructible T \<or> \<not> is_copy_constructible T then map (moved_from T) xs else xs)"

definition relocation_throws :: "'a elem_type \<Rightarrow> 'a \<Rightarrow> bool" where
  "relocation_throws T x =
     (if is_nothrow_move_constructible T \<or> \<not> is_copy_constructible T
      then move_ctor_throws T x else copy_ctor_throws T x)"

definition new_block :: "nat \<Rightarrow> 'a heap \<Rightarrow> 'a heap" where
  "new_block m h = h\<lparr>blocks := blocks h @ [Some (replicate m Raw)]\<rparr>"

definition free_block :: "nat \<Rightarrow> 'a heap \<Rightarrow> 'a heap" where
  "free_block b h = h\<lparr>blocks := (blocks h)[b := None]\<rparr>"

text \<open>
  Element types for the concrete runs: \<open>T_int\<close> is a trivially copyable type whose
  copies and moves never throw.
\<close>

definition T_int :: "int elem_type" where
  "T_int = \<lparr>sizeof_T = 4, value_init = Some 0, copy_ctor_throws = (\<lambda>x. False),
     move_ctor_throws = (\<lambda>x. False), copy_assign_throws = (\<lambda>x. False),
     move_assign_throws = (\<lambda>x. False), moved_from = (\<lambda>x. x),
     is_nothrow_move_constructible = True, is_copy_constructible = True\<rparr>"

text \<open>
  The body the three append functions share; \<open>CTOR\<close> is the construction of the new
  element at a given address.
\<close>

definition append_body ::
  "(ptr \<Rightarrow> 'a heap \<Rightarrow> (unit, 'a heap) outcome) \<Rightarrow> 'a elem_type \<Rightarrow> Vector \<Rightarrow> 'a heap \<Rightarrow>
   (unit, Vector \<times> 'a heap) outcome" where
  "append_body CTOR T this h =
       (if size_' this = Capacity this then
          (if size_' this = 0 then
             and_then (Reserve T 1 this h) (\<lambda>u (this1, h1).
             with_this this1
               (CTOR (ptr_add (GetAddress (data_' this1)) (size_' this1)) h1))
           else
             commit this
               (and_then (RawMemory_ctor T (size_t_of (size_' this * 2)) h) (\<lambda>new_data h1.
                and_then
                  (unwinding
                     (and_then
                        (CTOR (ptr_add (GetAddress new_data) (size_' this)) h1) (\<lambda>u h2.
                      and_then
                        (Uninitialized_Move_Or_Copy_N T (GetAddress (data_' this)) (size_' this)
                           (GetAddress new_data) h2) (\<lambda>u h3.
                      destroy_n (GetAddress (data_' this)) (size_' this) h3)))
                     (RawMemory_dtor new_data)) (\<lambda>u h4.
                case RawMemory_Swap (data_' this) new_data of (data1, new_data1) \<Rightarrow>
                and_then (RawMemory_dtor new_data1 h4) (\<lambda>u h5.
                Return (this\<lparr>data_' := data1\<rparr>) h5)))))
        else
          with_this this (CTOR (ptr_add (GetAddress (data_' this)) (size_' this)) h))"

text \<open>
  An append by copy, by move or in place, and a sequence of appends, each running on the
  vector and the free store the one before left.
\<close>

datatype 'a append = ByCopy 'a | ByMove 'a | InPlace 'a

fun Append ::
  "'a elem_type \<Rightarrow> 'a append \<Rightarrow> Vector \<Rightarrow> 'a heap \<Rightarrow> (unit, Vector \<times> 'a heap) outcome" where
  "Append T (ByCopy x) this h = PushBack_copy T x this h"
| "Append T (ByMove x) this h = PushBack_move T x this h"
| "Append T (InPlace x) this h = and_then (EmplaceBack T (Some x) this h) (\<lambda>p s. Return () s)"

fun Appends ::
  "'a elem_type \<Rightarrow> 'a append list \<Rightarrow> Vector \<Rightarrow> 'a heap \<Rightarrow> (unit, Vector \<times> 'a heap) outcome" where
  "Appends T [] this h = Return () (this, h)"
| "Appends T (a # as) this h =
     and_then (Append T a this h) (\<lambda>u (this1, h1). Appends T as this1 h1)"

fun appended :: "'a append \<Rightarrow> 'a" where
  "appended (ByCopy x) = x"
| "appended (ByMove x) = x"
| "appended (InPlace x) = x"

definition doubled :: "nat \<Rightarrow> nat \<Rightarrow> bool" where
  "doubled n c \<longleftrightarrow> (n = 0 \<and> c = 0) \<or> (\<exists>k. c = 2 ^ k \<and> n \<le> c \<and> c < 2 * n)"

text \<open>
  \<open>T_obj\<close> is a class whose copy constructor and copy assignment throw for the value 13
  and whose move constructor is not declared \<open>noexcept\<close>; a moved-from object holds 0.
\<close>

definition T_obj :: "int elem_type" where
  "T_obj = \<lparr>sizeof_T = 8, value_init = Some 0, copy_ctor_throws = (\<lambda>x. x = 13),
     move_ctor_throws = (\<lambda>x. False), copy_assign_throws = (\<lambda>x. x = 13),
     move_assign_throws = (\<lambda>x. False), moved_from = (\<lambda>x. 0),
     is_nothrow_move_constructible = False, is_copy_constructible = True\<rparr>"

text \<open>
  \<open>T_str\<close> is a string class: nothing throws, the move constructor is \<open>noexcept\<close>, and a
  moved-from string is empty.
\<close>

definition T_str :: "string elem_type" where
  "T_str = \<lparr>sizeof_T = 32, value_init = Some [], copy_ctor_throws = (\<lambda>x. False),
     move_ctor_throws = (\<lambda>x. False), copy_assign_throws = (\<lambda>x. False),
     move_assign_throws = (\<lambda>x. False), moved_from = (\<lambda>x. []),
     is_nothrow_move_constructible = True, is_copy_constructible = True\<rparr>"

text \<open>
  The conditions under which the functions that allocate return.  \<open>Vector_exact\<close>: the
  block of the buffer has exactly \<open>capacity_\<close> slots (the product in \<open>Allocate\<close> did not wrap
  when the buffer was obtained).  \<open>storage_for\<close>: \<open>n * sizeof(T)\<close> does not wrap and
  \<open>operator new\<close> supplies that many bytes.  \<open>relocatable\<close>: the constructor that
  \<open>Uninitialized_Move_Or_Copy_N\<close> selects throws for none of the elements.
  \<open>append_throws\<close>: the construction of the new element of an append throws.
\<close>

definition Vector_exact :: "'a heap \<Rightarrow> Vector \<Rightarrow> bool" where
  "Vector_exact h this \<longleftrightarrow>
     (case buffer_' (data_' this) of
        nullptr \<Rightarrow> True
      | Ptr b i \<Rightarrow>
          (case block_at h b of
             None \<Rightarrow> False
           | Some blk \<Rightarrow> length blk = capacity_' (data_' this)))"

definition storage_for :: "'a elem_type \<Rightarrow> nat \<Rightarrow> 'a heap \<Rightarrow> bool" where
  "storage_for T n h \<longleftrightarrow> n * sizeof_T T \<le> SIZE_MAX \<and> n * sizeof_T T \<le> limit h"

definition relocatable :: "'a elem_type \<Rightarrow> 'a heap \<Rightarrow> Vector \<Rightarrow> bool" where
  "relocatable T h this \<longleftrightarrow>
     list_all (\<lambda>i. case Vector_at h this i of None \<Rightarrow> True | Some x \<Rightarrow> \<not> relocation_throws T x)
       [0..<size_' this]"

fun append_throws :: "'a elem_type \<Rightarrow> 'a append \<Rightarrow> bool" where
  "append_throws T (ByCopy x) = copy_ctor_throws T x"
| "append_throws T (ByMove x) = move_ctor_throws T x"
| "append_throws T (InPlace x) = False"
section \<open>Basic facts\<close>

lemma and_then_simps [simp]:
  "and_then (Return r s) f = f r s"
  "and_then (Throws e s) f = Throws e s"
  "and_then Undefined f = Undefined"
  by (simp_all add: and_then_def)

lemma unwinding_simps [simp]:
  "unwinding (Return r s) d = Return r s"
  "unwinding Undefined d = Undefined"
  "d s = Return u s' \<Longrightarrow> unwinding (Throws e s) d = Throws e s'"
  by (simp_all add: unwinding_def)

lemma with_this_simps [simp]:
  "with_this v (Return r h) = Return r (v, h)"
  "with_this v (Throws e h) = Throws e (v, h)"
  "with_this v Undefined = Undefined"
  by (simp_all add: with_this_def)

lemma commit_simps [simp]:
  "commit v (Return v1 h) = Return () (v1, h)"
  "commit v (Throws e h) = Throws e (v, h)"
  "commit v Undefined = Undefined"
  by (simp_all add: commit_def)

lemma and_then_Return_iff:
  "and_then m f = Return r s \<longleftrightarrow> (\<exists>r1 s1. m = Return r1 s1 \<and> f r1 s1 = Return r s)"
  by (cases m) simp_all

lemma unwinding_Return_iff:
  "unwinding m d = Return r s \<longleftrightarrow> m = Return r s"
  by (cases m) (auto simp: unwinding_def split: outcome.splits)

lemma with_this_Return_iff:
  "with_this v m = Return r s \<longleftrightarrow> (\<exists>h. m = Return r h \<and> s = (v, h))"
  by (cases m) auto

lemma commit_Return_iff:
  "commit v m = Return r s \<longleftrightarrow> (\<exists>v1 h. m = Return v1 h \<and> s = (v1, h))"
  by (cases m) auto

lemma length_fill [simp]: "j + length ss \<le> length blk \<Longrightarrow> length (fill j ss blk) = length blk"
  by (simp add: fill_def)

lemma nth_fill:
  "j + length ss \<le> length blk \<Longrightarrow> m < length blk \<Longrightarrow>
   fill j ss blk ! m = (if j \<le> m \<and> m < j + length ss then ss ! (m - j) else blk ! m)"
  by (auto simp: fill_def nth_append min_def)

lemma fill_Nil [simp]: "fill j [] blk = blk"
  by (simp add: fill_def)

lemma fill_snoc:
  "j + length ss < length blk \<Longrightarrow> (fill j ss blk)[j + length ss := s] = fill j (ss @ [s]) blk"
  by (rule nth_equalityI) (auto simp: nth_fill nth_list_update nth_append)

lemma fill_same:
  assumes "j + length ss \<le> length blk" and "\<forall>m<length ss. blk ! (j + m) = ss ! m"
  shows "fill j ss blk = blk"
proof (rule nth_equalityI)
  show "length (fill j ss blk) = length blk" using assms by simp
next
  fix i assume "i < length (fill j ss blk)"
  then have i: "i < length blk" using assms by simp
  show "fill j ss blk ! i = blk ! i"
  proof (cases "j \<le> i \<and> i < j + length ss")
    case True
    then have lt: "i - j < length ss" by linarith
    from assms(2) lt have "blk ! (j + (i - j)) = ss ! (i - j)" by blast
    then show ?thesis using True assms(1) i by (simp add: nth_fill)
  next
    case False
    then show ?thesis using assms(1) i by (auto simp: nth_fill)
  qed
qed

lemma fill_fill:
  "length ss = length ss' \<Longrightarrow> j + length ss \<le> length blk \<Longrightarrow> fill j ss (fill j ss' blk) = fill j ss blk"
  by (rule nth_equalityI) (auto simp: nth_fill)

lemma block_at_put_block:
  "block_at (put_block b blk h) c = (if c = b \<and> b < length (blocks h) then Some blk else block_at h c)"
  by (auto simp: block_at_def put_block_def)

lemma put_block_fields [simp]:
  "limit (put_block b blk h) = limit h"
  "leaked (put_block b blk h) = leaked h"
  "length (blocks (put_block b blk h)) = length (blocks h)"
  by (simp_all add: put_block_def)

lemma put_block_put_block [simp]: "put_block b blk (put_block b blk' h) = put_block b blk h"
  by (simp add: put_block_def)

lemma put_block_same: "block_at h b = Some blk \<Longrightarrow> put_block b blk h = h"
  by (auto simp: put_block_def block_at_def list_update_same_conv split: if_splits)

lemma put_block_commute:
  "a \<noteq> b \<Longrightarrow> put_block a x (put_block b y h) = put_block b y (put_block a x h)"
  by (simp add: put_block_def list_update_swap)

lemma block_at_Some_less: "block_at h b = Some blk \<Longrightarrow> b < length (blocks h)"
  by (auto simp: block_at_def split: if_splits)

lemma set_slot_put_block:
  "block_at h b = Some blk \<Longrightarrow> set_slot (Ptr b i) s h = put_block b (blk[i := s]) h"
  by (simp add: put_block_def)

lemma slot_at_Ptr:
  "block_at h b = Some blk \<Longrightarrow> slot_at h (Ptr b i) = (if i < length blk then Some (blk ! i) else None)"
  by simp

lemma is_Live_iff: "is_Live s \<longleftrightarrow> (\<exists>x. s = Live x)"
  by (cases s) auto

lemma fill_Cons:
  "j < length blk \<Longrightarrow> fill (Suc j) ss (blk[j := s]) = fill j (s # ss) blk"
  by (simp add: fill_def upd_conv_take_nth_drop take_Suc_conv_app_nth min_def add.commute)

lemma fill_replicate_Suc_upd:
  assumes "j + k < length blk" "blk ! (j + k) = Raw"
  shows "fill j (replicate (Suc k) Raw) (blk[j + k := s]) = fill j (replicate k Raw) blk"
  using assms
  by (intro nth_equalityI) (auto simp: nth_fill nth_list_update simp del: replicate.simps)

lemma construct_at_Raw:
  "block_at h b = Some blk \<Longrightarrow> i < length blk \<Longrightarrow> blk ! i = Raw \<Longrightarrow>
   construct_at (Ptr b i) x h = Return () (put_block b (blk[i := Live x]) h)"
  by (simp add: construct_at_def put_block_def)

lemma destroy_at_Live:
  "block_at h b = Some blk \<Longrightarrow> i < length blk \<Longrightarrow> is_Live (blk ! i) \<Longrightarrow>
   destroy_at (Ptr b i) h = Return () (put_block b (blk[i := Raw]) h)"
  by (auto simp: destroy_at_def put_block_def is_Live_iff)

lemma deref_Live:
  "block_at h b = Some blk \<Longrightarrow> i < length blk \<Longrightarrow> blk ! i = Live x \<Longrightarrow> deref h (Ptr b i) = Some x"
  by (simp add: deref_def)

lemma destroy_n_block:
  "block_at h b = Some blk \<Longrightarrow> j + n \<le> length blk \<Longrightarrow> \<forall>m<n. is_Live (blk ! (j + m)) \<Longrightarrow>
   destroy_n (Ptr b j) n h = Return () (put_block b (fill j (replicate n Raw) blk) h)"
proof (induction n arbitrary: j h blk)
  case 0
  then show ?case by (simp add: put_block_same)
next
  case (Suc n)
  from Suc.prems have j: "j < length blk" and live: "is_Live (blk ! j)" by auto
  let ?h1 = "put_block b (blk[j := Raw]) h"
  have b: "b < length (blocks h)" using Suc.prems(1) by (rule block_at_Some_less)
  have 1: "block_at ?h1 b = Some (blk[j := Raw])" using b by (simp add: block_at_put_block)
  have 2: "Suc j + n \<le> length (blk[j := Raw])" using Suc.prems by simp
  have 3: "\<forall>m<n. is_Live ((blk[j := Raw]) ! (Suc j + m))"
  proof (intro allI impI)
    fix m assume "m < n"
    then have "is_Live (blk ! (j + Suc m))" using Suc.prems(3) by blast
    then show "is_Live ((blk[j := Raw]) ! (Suc j + m))" by simp
  qed
  have "destroy_n (Ptr b j) (Suc n) h = destroy_n (Ptr b (Suc j)) n ?h1"
    using Suc.prems(1) j live by (simp add: destroy_at_Live)
  also have "\<dots> = Return () (put_block b (fill (Suc j) (replicate n Raw) (blk[j := Raw])) ?h1)"
    by (rule Suc.IH[OF 1 2 3])
  also have "fill (Suc j) (replicate n Raw) (blk[j := Raw]) = fill j (replicate (Suc n) Raw) blk"
    using j by (simp add: fill_Cons)
  finally show ?case by simp
qed

lemma fill_Cons_at:
  "j + k < length blk \<Longrightarrow> fill (Suc (j + k)) ss (blk[j + k := s]) = fill (j + k) (s # ss) blk"
  by (rule fill_Cons)

lemma uninitialized_copy_from_spec:
  assumes "a \<noteq> b" "block_at h a = Some sblk" "block_at h b = Some dblk"
    and "i + k + n \<le> length sblk" "j + k + n \<le> length dblk"
    and "length xs = k + n"
    and "\<forall>m. k \<le> m \<and> m < k + n \<longrightarrow> sblk ! (i + m) = Live (xs ! m)"
    and "\<forall>m<k. is_Live (dblk ! (j + m))"
    and "\<forall>m<n. dblk ! (j + k + m) = Raw"
  shows "uninitialized_copy_from T (Ptr a i) (Ptr b j) k n h =
     (if \<exists>x\<in>set (drop k xs). copy_ctor_throws T x
      then Throws T_exception (put_block b (fill j (replicate k Raw) dblk) h)
      else Return () (put_block b (fill (j + k) (map Live (drop k xs)) dblk) h))"
  using assms
proof (induction n arbitrary: k h dblk)
  case 0
  then show ?case by (simp add: put_block_same)
next
  case (Suc n)
  let ?x = "xs ! k"
  have bl: "b < length (blocks h)" using Suc.prems(3) by (rule block_at_Some_less)
  have src: "deref h (Ptr a (i + k)) = Some ?x"
    using Suc.prems(2,4,7) by (intro deref_Live[where blk=sblk]) auto
  have dr: "drop k xs = ?x # drop (Suc k) xs"
    using Suc.prems(6) by (simp add: Cons_nth_drop_Suc)
  show ?case
  proof (cases "copy_ctor_throws T ?x")
    case True
    have "destroy_n (Ptr b j) k h = Return () (put_block b (fill j (replicate k Raw) dblk) h)"
      using Suc.prems(3,5,8) by (intro destroy_n_block) auto
    then show ?thesis using True src dr by (simp add: copy_construct_def)
  next
    case False
    let ?d1 = "dblk[j + k := Live ?x]"
    let ?h1 = "put_block b ?d1 h"
    have raw: "dblk ! (j + k) = Raw" using Suc.prems(9) by (metis add.right_neutral zero_less_Suc)
    have jk: "j + k < length dblk" using Suc.prems(5) by simp
    have step: "copy_construct T (Ptr a (i + k)) (Ptr b (j + k)) h = Return () ?h1"
      using False src Suc.prems(3) jk raw by (simp add: copy_construct_def construct_at_Raw)
    have 2: "block_at ?h1 a = Some sblk" using Suc.prems(1,2) by (simp add: block_at_put_block)
    have 3: "block_at ?h1 b = Some ?d1" using bl by (simp add: block_at_put_block)
    have 8: "\<forall>m<Suc k. is_Live (?d1 ! (j + m))"
      using Suc.prems(8) jk by (auto simp: nth_list_update less_Suc_eq)
    have 9: "\<forall>m<n. ?d1 ! (j + Suc k + m) = Raw"
    proof (intro allI impI)
      fix m assume "m < n"
      then have "dblk ! (j + k + Suc m) = Raw" using Suc.prems(9) by (metis Suc_less_eq)
      then show "?d1 ! (j + Suc k + m) = Raw" by simp
    qed
    have IH: "uninitialized_copy_from T (Ptr a i) (Ptr b j) (Suc k) n ?h1 =
       (if \<exists>x\<in>set (drop (Suc k) xs). copy_ctor_throws T x
        then Throws T_exception (put_block b (fill j (replicate (Suc k) Raw) ?d1) ?h1)
        else Return () (put_block b (fill (j + Suc k) (map Live (drop (Suc k) xs)) ?d1) ?h1))"
      using Suc.prems(1,4,5,6,7) 2 3 8 9 by (intro Suc.IH) auto
    have f1: "fill j (replicate (Suc k) Raw) ?d1 = fill j (replicate k Raw) dblk"
      using jk raw by (rule fill_replicate_Suc_upd)
    have f2: "fill (Suc (j + k)) (map Live (drop (Suc k) xs)) ?d1 =
        fill (j + k) (Live ?x # map Live (drop (Suc k) xs)) dblk"
      using jk by (rule fill_Cons_at)
    show ?thesis
      using step IH False dr by (simp add: f1 f2 del: replicate.simps)
  qed
qed

lemma put_block_absorb:
  "a \<noteq> b \<Longrightarrow> put_block a X (put_block b D (put_block a S (put_block b d h))) = put_block a X (put_block b D h)"
  by (simp add: put_block_def list_update_swap[of a b])

lemma move_construct_step:
  assumes "a \<noteq> b" "block_at h a = Some sblk" "block_at h b = Some dblk"
    and "i < length sblk" "j < length dblk" "sblk ! i = Live x" "dblk ! j = Raw"
    and "\<not> move_ctor_throws T x"
  shows "move_construct T (Ptr a i) (Ptr b j) h =
     Return () (put_block a (sblk[i := Live (moved_from T x)]) (put_block b (dblk[j := Live x]) h))"
proof -
  have "block_at (put_block b (dblk[j := Live x]) h) a = Some sblk"
    using assms(1,2) by (simp add: block_at_put_block)
  then show ?thesis
    using assms by (simp add: move_construct_def deref_Live construct_at_Raw set_slot_put_block del: set_slot.simps)
qed

lemma uninitialized_move_from_spec:
  assumes "a \<noteq> b" "block_at h a = Some sblk" "block_at h b = Some dblk"
    and "i + k + n \<le> length sblk" "j + k + n \<le> length dblk"
    and "length xs = k + n"
    and "\<forall>m. k \<le> m \<and> m < k + n \<longrightarrow> sblk ! (i + m) = Live (xs ! m)"
    and "\<forall>m<k. is_Live (dblk ! (j + m))"
    and "\<forall>m<n. dblk ! (j + k + m) = Raw"
  shows "uninitialized_move_from T (Ptr a i) (Ptr b j) k n h =
     (if \<exists>x\<in>set (drop k xs). move_ctor_throws T x
      then Throws T_exception
             (put_block a
                (fill (i + k)
                   (map (\<lambda>x. Live (moved_from T x))
                      (takeWhile (\<lambda>x. \<not> move_ctor_throws T x) (drop k xs))) sblk)
                (put_block b (fill j (replicate k Raw) dblk) h))
      else Return ()
             (put_block a (fill (i + k) (map (\<lambda>x. Live (moved_from T x)) (drop k xs)) sblk)
                (put_block b (fill (j + k) (map Live (drop k xs)) dblk) h)))"
  using assms
proof (induction n arbitrary: k h sblk dblk)
  case 0
  then show ?case by (simp add: put_block_same)
next
  case (Suc n)
  let ?x = "xs ! k"
  have bl: "b < length (blocks h)" using Suc.prems(3) by (rule block_at_Some_less)
  have al: "a < length (blocks h)" using Suc.prems(2) by (rule block_at_Some_less)
  have ik: "i + k < length sblk" using Suc.prems(4) by simp
  have jk: "j + k < length dblk" using Suc.prems(5) by simp
  have sx: "sblk ! (i + k) = Live ?x" using Suc.prems(7) by auto
  have src: "deref h (Ptr a (i + k)) = Some ?x"
    using Suc.prems(2) ik sx by (rule deref_Live)
  have dr: "drop k xs = ?x # drop (Suc k) xs"
    using Suc.prems(6) by (simp add: Cons_nth_drop_Suc)
  show ?case
  proof (cases "move_ctor_throws T ?x")
    case True
    have d: "destroy_n (Ptr b j) k h = Return () (put_block b (fill j (replicate k Raw) dblk) h)"
      using Suc.prems(3,5,8) by (intro destroy_n_block) auto
    have "block_at (put_block b (fill j (replicate k Raw) dblk) h) a = Some sblk"
      using Suc.prems(1,2) by (simp add: block_at_put_block)
    then have "put_block a sblk (put_block b (fill j (replicate k Raw) dblk) h) =
        put_block b (fill j (replicate k Raw) dblk) h"
      by (rule put_block_same)
    then show ?thesis using True src dr d by (simp add: move_construct_def)
  next
    case False
    let ?d1 = "dblk[j + k := Live ?x]"
    let ?s1 = "sblk[i + k := Live (moved_from T ?x)]"
    let ?h1 = "put_block a ?s1 (put_block b ?d1 h)"
    have raw: "dblk ! (j + k) = Raw" using Suc.prems(9) by (metis add.right_neutral zero_less_Suc)
    have step: "move_construct T (Ptr a (i + k)) (Ptr b (j + k)) h = Return () ?h1"
      using Suc.prems(1,2,3) ik jk sx raw False by (rule move_construct_step)
    have 2: "block_at ?h1 a = Some ?s1" using al by (simp add: block_at_put_block)
    have 3: "block_at ?h1 b = Some ?d1" using bl Suc.prems(1) by (simp add: block_at_put_block)
    have 7: "\<forall>m. Suc k \<le> m \<and> m < Suc k + n \<longrightarrow> ?s1 ! (i + m) = Live (xs ! m)"
      using Suc.prems(7) by auto
    have 8: "\<forall>m<Suc k. is_Live (?d1 ! (j + m))"
      using Suc.prems(8) jk by (auto simp: nth_list_update less_Suc_eq)
    have 9: "\<forall>m<n. ?d1 ! (j + Suc k + m) = Raw"
    proof (intro allI impI)
      fix m assume "m < n"
      then have "dblk ! (j + k + Suc m) = Raw" using Suc.prems(9) by (metis Suc_less_eq)
      then show "?d1 ! (j + Suc k + m) = Raw" by simp
    qed
    have IH: "uninitialized_move_from T (Ptr a i) (Ptr b j) (Suc k) n ?h1 =
       (if \<exists>x\<in>set (drop (Suc k) xs). move_ctor_throws T x
        then Throws T_exception
               (put_block a
                  (fill (i + Suc k)
                     (map (\<lambda>x. Live (moved_from T x))
                        (takeWhile (\<lambda>x. \<not> move_ctor_throws T x) (drop (Suc k) xs))) ?s1)
                  (put_block b (fill j (replicate (Suc k) Raw) ?d1) ?h1))
        else Return ()
               (put_block a (fill (i + Suc k) (map (\<lambda>x. Live (moved_from T x)) (drop (Suc k) xs)) ?s1)
                  (put_block b (fill (j + Suc k) (map Live (drop (Suc k) xs)) ?d1) ?h1)))"
      using Suc.prems(1,4,5,6) 2 3 7 8 9 by (intro Suc.IH) auto
    have f1: "fill j (replicate (Suc k) Raw) ?d1 = fill j (replicate k Raw) dblk"
      using jk raw by (rule fill_replicate_Suc_upd)
    have f2: "\<And>ss. fill (Suc (j + k)) ss ?d1 = fill (j + k) (Live ?x # ss) dblk"
      using jk by (rule fill_Cons_at)
    have f3: "\<And>ss. fill (Suc (i + k)) ss ?s1 = fill (i + k) (Live (moved_from T ?x) # ss) sblk"
      using ik by (rule fill_Cons_at)
    have ab: "\<And>X D. put_block a X (put_block b D ?h1) = put_block a X (put_block b D h)"
      using Suc.prems(1) by (rule put_block_absorb)
    show ?thesis
      using step IH False dr by (simp add: f1 f2 f3 ab del: replicate.simps)
  qed
qed

lemma uninitialized_value_construct_from_spec:
  assumes "block_at h b = Some dblk" "j + k + n \<le> length dblk"
    and "\<forall>m<k. is_Live (dblk ! (j + m))"
    and "\<forall>m<n. dblk ! (j + k + m) = Raw"
  shows "uninitialized_value_construct_from T (Ptr b j) k n h =
     (case value_init T of
        None \<Rightarrow> if n = 0 then Return () h
                else Throws T_exception (put_block b (fill j (replicate k Raw) dblk) h)
      | Some d \<Rightarrow> Return () (put_block b (fill (j + k) (replicate n (Live d)) dblk) h))"
  using assms
proof (induction n arbitrary: k h dblk)
  case 0
  then show ?case by (simp add: put_block_same split: option.splits)
next
  case (Suc n)
  have bl: "b < length (blocks h)" using Suc.prems(1) by (rule block_at_Some_less)
  have jk: "j + k < length dblk" using Suc.prems(2) by simp
  have raw: "dblk ! (j + k) = Raw" using Suc.prems(4) by (metis add.right_neutral zero_less_Suc)
  show ?case
  proof (cases "value_init T")
    case None
    have "destroy_n (Ptr b j) k h = Return () (put_block b (fill j (replicate k Raw) dblk) h)"
      using Suc.prems(1,2,3) by (intro destroy_n_block) auto
    then show ?thesis using None by (simp add: value_construct_def)
  next
    case (Some d)
    let ?d1 = "dblk[j + k := Live d]"
    let ?h1 = "put_block b ?d1 h"
    have step: "value_construct T (Ptr b (j + k)) h = Return () ?h1"
      using Some Suc.prems(1) jk raw by (simp add: value_construct_def construct_at_Raw)
    have 1: "block_at ?h1 b = Some ?d1" using bl by (simp add: block_at_put_block)
    have 3: "\<forall>m<Suc k. is_Live (?d1 ! (j + m))"
      using Suc.prems(3) jk by (auto simp: nth_list_update less_Suc_eq)
    have 4: "\<forall>m<n. ?d1 ! (j + Suc k + m) = Raw"
    proof (intro allI impI)
      fix m assume "m < n"
      then have "dblk ! (j + k + Suc m) = Raw" using Suc.prems(4) by (metis Suc_less_eq)
      then show "?d1 ! (j + Suc k + m) = Raw" by simp
    qed
    have IH: "uninitialized_value_construct_from T (Ptr b j) (Suc k) n ?h1 =
        Return () (put_block b (fill (j + Suc k) (replicate n (Live d)) ?d1) ?h1)"
      using Suc.IH[OF 1 _ 3 4] Suc.prems(2) Some by simp
    have f2: "\<And>ss. fill (Suc (j + k)) ss ?d1 = fill (j + k) (Live d # ss) dblk"
      using jk by (rule fill_Cons_at)
    show ?thesis using step IH Some by (simp add: f2)
  qed
qed

lemma shape_block_at:
  assumes "shape h' = shape h" "block_at h b = Some blk"
  shows "\<exists>blk'. block_at h' b = Some blk' \<and> length blk' = length blk"
proof -
  have len: "length (blocks h') = length (blocks h)"
    using assms(1) unfolding shape_def by (metis length_map)
  have b: "b < length (blocks h)" using assms(2) by (rule block_at_Some_less)
  have "map_option length (blocks h' ! b) = map_option length (blocks h ! b)"
    using assms(1) b len unfolding shape_def by (metis nth_map)
  then show ?thesis using assms(2) b len by (auto simp: block_at_def)
qed

lemma shape_set_slot [simp]: "shape (set_slot p s h) = shape h"
proof (cases p)
  case nullptr
  then show ?thesis by simp
next
  case (Ptr b i)
  show ?thesis
  proof (cases "block_at h b")
    case None
    then show ?thesis using Ptr by simp
  next
    case (Some blk)
    then have "b < length (blocks h)" by (rule block_at_Some_less)
    then show ?thesis using Ptr Some
      by (auto simp: shape_def block_at_def map_update list_update_same_conv)
  qed
qed

lemma shape_leaked_update [simp]: "shape (h\<lparr>leaked := l\<rparr>) = shape h"
  by (simp add: shape_def)

lemma construct_at_Return:
  assumes "construct_at p x h = Return u h'"
  shows "shape h' = shape h" and "slot_at h p \<noteq> None"
  using assms by (auto simp: construct_at_def split: option.splits slot.splits simp del: set_slot.simps)

lemma slot_at_bound:
  "slot_at h (Ptr b i) \<noteq> None \<Longrightarrow> block_at h b = Some blk \<Longrightarrow> i < length blk"
  by (auto split: if_splits)

lemma destroy_at_Return:
  assumes "destroy_at p h = Return u h'"
  shows "shape h' = shape h"
  using assms by (auto simp: destroy_at_def split: option.splits slot.splits simp del: set_slot.simps)

lemma copy_construct_Return:
  assumes "copy_construct T src dst h = Return u h'"
  shows "shape h' = shape h" and "slot_at h dst \<noteq> None"
  using assms construct_at_Return[of dst _ h u h']
  by (auto simp: copy_construct_def split: option.splits if_splits)

lemma move_construct_Return:
  assumes "move_construct T src dst h = Return u h'"
  shows "shape h' = shape h" and "slot_at h dst \<noteq> None"
  using assms construct_at_Return[of dst _ h]
  by (auto simp: move_construct_def and_then_Return_iff split: option.splits if_splits simp del: set_slot.simps)

lemma value_construct_Return:
  assumes "value_construct T dst h = Return u h'"
  shows "shape h' = shape h" and "slot_at h dst \<noteq> None"
  using assms construct_at_Return[of dst _ h u h']
  by (auto simp: value_construct_def split: option.splits)

lemma uninitialized_copy_from_bound:
  "uninitialized_copy_from T src (Ptr b j) k n h = Return u h' \<Longrightarrow> block_at h b = Some dblk \<Longrightarrow>
   0 < n \<Longrightarrow> j + k + n \<le> length dblk"
proof (induction n arbitrary: k h dblk)
  case 0
  then show ?case by simp
next
  case (Suc n)
  from Suc.prems(1) obtain h1 where
    step: "copy_construct T (ptr_add src k) (Ptr b (j + k)) h = Return () h1" and
    rest: "uninitialized_copy_from T src (Ptr b j) (Suc k) n h1 = Return u h'"
    by (auto simp: and_then_Return_iff unwinding_Return_iff)
  from copy_construct_Return[OF step] Suc.prems(2) have jk: "j + k < length dblk" and sh: "shape h1 = shape h"
    by (auto split: if_splits)
  from shape_block_at[OF sh Suc.prems(2)] obtain d1 where d1: "block_at h1 b = Some d1" "length d1 = length dblk"
    by blast
  show ?case
  proof (cases "n = 0")
    case True
    then show ?thesis using jk by simp
  next
    case False
    then have "j + Suc k + n \<le> length d1" using Suc.IH[OF rest d1(1)] by simp
    then show ?thesis using d1(2) by simp
  qed
qed

lemma uninitialized_move_from_bound:
  "uninitialized_move_from T src (Ptr b j) k n h = Return u h' \<Longrightarrow> block_at h b = Some dblk \<Longrightarrow>
   0 < n \<Longrightarrow> j + k + n \<le> length dblk"
proof (induction n arbitrary: k h dblk)
  case 0
  then show ?case by simp
next
  case (Suc n)
  from Suc.prems(1) obtain h1 where
    step: "move_construct T (ptr_add src k) (Ptr b (j + k)) h = Return () h1" and
    rest: "uninitialized_move_from T src (Ptr b j) (Suc k) n h1 = Return u h'"
    by (auto simp: and_then_Return_iff unwinding_Return_iff)
  from move_construct_Return[OF step] Suc.prems(2) have jk: "j + k < length dblk" and sh: "shape h1 = shape h"
    by (auto split: if_splits)
  from shape_block_at[OF sh Suc.prems(2)] obtain d1 where d1: "block_at h1 b = Some d1" "length d1 = length dblk"
    by blast
  show ?case
  proof (cases "n = 0")
    case True
    then show ?thesis using jk by simp
  next
    case False
    then have "j + Suc k + n \<le> length d1" using Suc.IH[OF rest d1(1)] by simp
    then show ?thesis using d1(2) by simp
  qed
qed

lemma uninitialized_value_construct_from_bound:
  "uninitialized_value_construct_from T (Ptr b j) k n h = Return u h' \<Longrightarrow> block_at h b = Some dblk \<Longrightarrow>
   0 < n \<Longrightarrow> j + k + n \<le> length dblk"
proof (induction n arbitrary: k h dblk)
  case 0
  then show ?case by simp
next
  case (Suc n)
  from Suc.prems(1) obtain h1 where
    step: "value_construct T (Ptr b (j + k)) h = Return () h1" and
    rest: "uninitialized_value_construct_from T (Ptr b j) (Suc k) n h1 = Return u h'"
    by (auto simp: and_then_Return_iff unwinding_Return_iff)
  from value_construct_Return[OF step] Suc.prems(2) have jk: "j + k < length dblk" and sh: "shape h1 = shape h"
    by (auto split: if_splits)
  from shape_block_at[OF sh Suc.prems(2)] obtain d1 where d1: "block_at h1 b = Some d1" "length d1 = length dblk"
    by blast
  show ?case
  proof (cases "n = 0")
    case True
    then show ?thesis using jk by simp
  next
    case False
    then have "j + Suc k + n \<le> length d1" using Suc.IH[OF rest d1(1)] by simp
    then show ?thesis using d1(2) by simp
  qed
qed

lemma is_Raw_iff: "is_Raw s \<longleftrightarrow> s = Raw"
  by (cases s) auto

lemma Vector_inv_nullD:
  assumes "Vector_inv T h v" "buffer_' (data_' v) = nullptr"
  shows "size_' v = 0" "capacity_' (data_' v) = 0"
  using assms by (auto simp: Vector_inv_def)

lemma all_Live_values:
  assumes "list_all is_Live ss"
  shows "\<exists>xs. ss = map Live xs"
  using assms
proof (induction ss)
  case Nil
  then show ?case by simp
next
  case (Cons s ss)
  then obtain xs x where "ss = map Live xs" "s = Live x" by (auto simp: is_Live_iff)
  then have "s # ss = map Live (x # xs)" by simp
  then show ?case by (rule exI)
qed

lemma Vector_inv_PtrD:
  assumes "Vector_inv T h v" "buffer_' (data_' v) = Ptr b i"
  shows "i = 0 \<and> (\<exists>blk xs. block_at h b = Some blk \<and> size_' v \<le> length blk \<and>
     length blk \<le> capacity_' (data_' v) \<and> length blk * sizeof_T T \<le> SIZE_MAX \<and>
     length xs = size_' v \<and> (\<forall>m<size_' v. blk ! m = Live (xs ! m)) \<and>
     (\<forall>m. size_' v \<le> m \<and> m < length blk \<longrightarrow> blk ! m = Raw))"
proof -
  from assms obtain blk where blk: "i = 0" "block_at h b = Some blk" "size_' v \<le> length blk"
    "length blk \<le> capacity_' (data_' v)" "length blk * sizeof_T T \<le> SIZE_MAX"
    "list_all is_Live (take (size_' v) blk)" "list_all is_Raw (drop (size_' v) blk)"
    by (auto simp: Vector_inv_def split: option.splits)
  from all_Live_values[OF blk(6)] obtain xs where xs: "take (size_' v) blk = map Live xs" by blast
  have len: "length xs = size_' v"
    using arg_cong[OF xs, of length] blk(3) by simp
  have live: "\<forall>m<size_' v. blk ! m = Live (xs ! m)"
  proof (intro allI impI)
    fix m assume m: "m < size_' v"
    then have "blk ! m = take (size_' v) blk ! m" by simp
    also have "\<dots> = Live (xs ! m)" using m len by (simp add: xs)
    finally show "blk ! m = Live (xs ! m)" .
  qed
  have raw: "\<forall>m. size_' v \<le> m \<and> m < length blk \<longrightarrow> blk ! m = Raw"
  proof (intro allI impI)
    fix m assume m: "size_' v \<le> m \<and> m < length blk"
    then have "m - size_' v < length (drop (size_' v) blk)" by (simp add: diff_less_mono)
    then have "is_Raw (drop (size_' v) blk ! (m - size_' v))"
      using blk(7) unfolding list_all_length by blast
    then show "blk ! m = Raw" using m by (simp add: is_Raw_iff)
  qed
  show ?thesis using blk(1-5) len live raw by blast
qed

lemma Vector_invI:
  assumes "0 < sizeof_T T" "buffer_' (data_' v) = Ptr b 0" "block_at h b = Some blk"
    "size_' v \<le> length blk" "length blk \<le> capacity_' (data_' v)" "length blk * sizeof_T T \<le> SIZE_MAX"
    "\<forall>m<size_' v. is_Live (blk ! m)" "\<forall>m. size_' v \<le> m \<and> m < length blk \<longrightarrow> blk ! m = Raw"
  shows "Vector_inv T h v"
  using assms by (auto simp: Vector_inv_def list_all_length is_Raw_iff)

lemma Vector_at_Ptr:
  assumes "buffer_' (data_' v) = Ptr b 0" "block_at h b = Some blk" "size_' v \<le> length blk" "i < size_' v"
    "blk ! i = Live x"
  shows "Vector_at h v i = Some x"
  using assms by (simp add: Vector_at_def RawMemory_at_def deref_def)

lemma std_swap_RawMemory_eq:
  "std_swap_RawMemory True a b h = Return (b, a) h"
  "std_swap_RawMemory False a a h = Return (a, a) h"
  by (simp_all add: std_swap_RawMemory_def RawMemory_move_ctor_def RawMemory_move_assign_def
      RawMemory_Swap_def RawMemory_dtor_def)

lemma Vector_Swap_eq:
  "Vector_Swap True this other h = Return (other, this) h"
  "Vector_Swap False this this h = Return (this, this) h"
  by (simp_all add: Vector_Swap_def std_swap_RawMemory_eq)

lemma block_at_new_block:
  "block_at (new_block m h) c = (if c = length (blocks h) then Some (replicate m Raw) else block_at h c)"
  by (auto simp: block_at_def new_block_def nth_append)

lemma new_block_fields [simp]:
  "limit (new_block m h) = limit h"
  "leaked (new_block m h) = leaked h"
  "length (blocks (new_block m h)) = Suc (length (blocks h))"
  by (simp_all add: new_block_def)

lemma block_at_free_block:
  "block_at (free_block b h) c = (if c = b then None else block_at h c)"
  by (auto simp: block_at_def free_block_def)

lemma free_block_fields [simp]:
  "limit (free_block b h) = limit h"
  "leaked (free_block b h) = leaked h"
  "length (blocks (free_block b h)) = length (blocks h)"
  by (simp_all add: free_block_def)

lemma size_t_of_le: "size_t_of n \<le> n" "size_t_of n \<le> SIZE_MAX"
  by (simp_all add: size_t_of_def SIZE_MAX_def)

lemma size_t_of_id: "n \<le> SIZE_MAX \<Longrightarrow> size_t_of n = n"
  by (simp add: size_t_of_def SIZE_MAX_def)

lemma Allocate_cases:
  "Allocate T n h = Throws bad_alloc h \<or>
   (n = 0 \<and> Allocate T n h = Return nullptr h) \<or>
   (n \<noteq> 0 \<and> size_t_of (n * sizeof_T T) \<le> limit h \<and>
    Allocate T n h = Return (Ptr (length (blocks h)) 0)
      (new_block (size_t_of (n * sizeof_T T) div sizeof_T T) h))"
  by (simp add: Allocate_def new_block_def Let_def)

lemma slots_obtained:
  fixes n sz :: nat
  defines "m \<equiv> size_t_of (n * sz) div sz"
  shows "m \<le> n" and "m * sz \<le> SIZE_MAX" and "0 < sz \<Longrightarrow> n * sz \<le> SIZE_MAX \<Longrightarrow> m = n"
proof -
  show "m \<le> n"
  proof (cases "sz = 0")
    case True
    then show ?thesis by (simp add: m_def)
  next
    case False
    have "size_t_of (n * sz) div sz \<le> (n * sz) div sz"
      by (rule div_le_mono) (rule size_t_of_le)
    then show ?thesis using False by (simp add: m_def)
  qed
  have "m * sz \<le> size_t_of (n * sz)" by (simp add: m_def)
  then show "m * sz \<le> SIZE_MAX" using size_t_of_le(2)[of "n * sz"] by linarith
  show "0 < sz \<Longrightarrow> n * sz \<le> SIZE_MAX \<Longrightarrow> m = n"
    by (simp add: m_def size_t_of_id)
qed

lemma live_values_Raw: "\<forall>m<length ss. ss ! m = Raw \<Longrightarrow> live_values ss = []"
proof (induction ss)
  case Nil
  then show ?case by simp
next
  case (Cons s ss)
  from Cons.prems have "s = Raw" by (metis length_greater_0_conv list.distinct(1) nth_Cons_0)
  moreover have "\<forall>m<length ss. ss ! m = Raw"
  proof (intro allI impI)
    fix m assume "m < length ss"
    then have "(s # ss) ! Suc m = Raw" using Cons.prems by (metis Suc_less_eq length_Cons)
    then show "ss ! m = Raw" by simp
  qed
  ultimately show ?case using Cons.IH by simp
qed

lemma Deallocate_block:
  "block_at h b = Some blk \<Longrightarrow>
   Deallocate (Ptr b 0) h = Return () (free_block b (h\<lparr>leaked := leaked h @ live_values blk\<rparr>))"
  by (simp add: free_block_def)

lemma free_block_leaked_update:
  "free_block b (h\<lparr>leaked := l\<rparr>) = (free_block b h)\<lparr>leaked := l\<rparr>"
  by (simp add: free_block_def)

lemma leaked_update_same [simp]: "h\<lparr>leaked := leaked h\<rparr> = h"
  by simp

lemma Uninitialized_Move_Or_Copy_N_spec:
  assumes "a \<noteq> b" "block_at h a = Some sblk" "block_at h b = Some dblk"
    and "i + n \<le> length sblk" "j + n \<le> length dblk"
    and "length xs = n"
    and "\<forall>m<n. sblk ! (i + m) = Live (xs ! m)"
    and "\<forall>m<n. dblk ! (j + m) = Raw"
  shows "Uninitialized_Move_Or_Copy_N T (Ptr a i) n (Ptr b j) h =
     (if \<exists>x\<in>set xs. relocation_throws T x
      then Throws T_exception
             (if is_nothrow_move_constructible T \<or> \<not> is_copy_constructible T
              then put_block a
                     (fill i (map (\<lambda>x. Live (moved_from T x))
                        (takeWhile (\<lambda>x. \<not> move_ctor_throws T x) xs)) sblk) h
              else h)
      else Return ()
             (put_block a (fill i (map Live (src_after T xs)) sblk)
                (put_block b (fill j (map Live xs) dblk) h)))"
proof (cases "is_nothrow_move_constructible T \<or> \<not> is_copy_constructible T")
  case True
  have "uninitialized_move_from T (Ptr a i) (Ptr b j) 0 n h =
     (if \<exists>x\<in>set (drop 0 xs). move_ctor_throws T x
      then Throws T_exception
             (put_block a
                (fill (i + 0)
                   (map (\<lambda>x. Live (moved_from T x))
                      (takeWhile (\<lambda>x. \<not> move_ctor_throws T x) (drop 0 xs))) sblk)
                (put_block b (fill j (replicate 0 Raw) dblk) h))
      else Return ()
             (put_block a (fill (i + 0) (map (\<lambda>x. Live (moved_from T x)) (drop 0 xs)) sblk)
                (put_block b (fill (j + 0) (map Live (drop 0 xs)) dblk) h)))"
    using assms by (intro uninitialized_move_from_spec) auto
  then show ?thesis
    using True assms(3)
    by (simp add: Uninitialized_Move_Or_Copy_N_def uninitialized_move_n_def relocation_throws_def
        src_after_def put_block_same comp_def)
next
  case False
  have c: "uninitialized_copy_from T (Ptr a i) (Ptr b j) 0 n h =
     (if \<exists>x\<in>set (drop 0 xs). copy_ctor_throws T x
      then Throws T_exception (put_block b (fill j (replicate 0 Raw) dblk) h)
      else Return () (put_block b (fill (j + 0) (map Live (drop 0 xs)) dblk) h))"
    using assms by (intro uninitialized_copy_from_spec) auto
  have "fill i (map Live xs) sblk = sblk"
    using assms(4,6,7) by (intro fill_same) auto
  moreover have "block_at (put_block b (fill j (map Live xs) dblk) h) a = Some sblk"
    using assms(1,2) by (simp add: block_at_put_block)
  ultimately have "put_block a (fill i (map Live xs) sblk) (put_block b (fill j (map Live xs) dblk) h)
      = put_block b (fill j (map Live xs) dblk) h"
    by (simp add: put_block_same)
  then show ?thesis
    using False c assms(3)
    by (simp add: Uninitialized_Move_Or_Copy_N_def uninitialized_copy_n_def relocation_throws_def
        src_after_def put_block_same)
qed

lemma Uninitialized_Move_Or_Copy_N_bound:
  "Uninitialized_Move_Or_Copy_N T src n (Ptr b j) h = Return u h' \<Longrightarrow> block_at h b = Some dblk \<Longrightarrow>
   0 < n \<Longrightarrow> j + n \<le> length dblk"
  using uninitialized_copy_from_bound[of T src b j 0 n h u h' dblk]
    uninitialized_move_from_bound[of T src b j 0 n h u h' dblk]
  by (auto simp: Uninitialized_Move_Or_Copy_N_def uninitialized_move_n_def uninitialized_copy_n_def
      split: if_splits)

lemma Uninitialized_Move_Or_Copy_N_0 [simp]:
  "Uninitialized_Move_Or_Copy_N T src 0 dst h = Return () h"
  by (simp add: Uninitialized_Move_Or_Copy_N_def uninitialized_move_n_def uninitialized_copy_n_def)

lemma length_src_after [simp]: "length (src_after T xs) = length xs"
  by (simp add: src_after_def)

lemma Vector_at_out [simp]: "size_' v \<le> i \<Longrightarrow> Vector_at h v i = None"
  by (simp add: Vector_at_def)

lemma migrate_Return:
  assumes inv: "Vector_inv T h v" and nb: "block_at h b' = Some dblk"
    and ne: "buffer_' (data_' v) \<noteq> Ptr b' 0"
    and raw: "\<forall>m<size_' v. m < length dblk \<longrightarrow> dblk ! m = Raw"
    and R: "and_then (Uninitialized_Move_Or_Copy_N T (GetAddress (data_' v)) (size_' v) (Ptr b' 0) h)
              (\<lambda>u h2. destroy_n (GetAddress (data_' v)) (size_' v) h2) = Return u h3"
  shows "\<exists>xs. length xs = size_' v \<and> (\<forall>i<size_' v. Vector_at h v i = Some (xs ! i)) \<and>
      size_' v \<le> length dblk \<and> block_at h3 b' = Some (fill 0 (map Live xs) dblk) \<and>
      leaked h3 = leaked h \<and> limit h3 = limit h \<and> length (blocks h3) = length (blocks h) \<and>
      (\<forall>x\<in>set xs. \<not> relocation_throws T x) \<and>
      (case buffer_' (data_' v) of
         nullptr \<Rightarrow> h3 = h
       | Ptr a i \<Rightarrow> a \<noteq> b' \<and> (\<exists>sblk. block_at h3 a = Some sblk \<and> (\<forall>m<length sblk. sblk ! m = Raw)))"
proof (cases "buffer_' (data_' v)")
  case nullptr
  then have "size_' v = 0" using inv by (rule Vector_inv_nullD[rotated])
  then show ?thesis using nullptr R nb by (simp add: GetAddress_def)
next
  case (Ptr a i)
  from Vector_inv_PtrD[OF inv Ptr] obtain blk xs where
    i: "i = 0" and blk: "block_at h a = Some blk" "size_' v \<le> length blk"
    and xs: "length xs = size_' v" "\<forall>m<size_' v. blk ! m = Live (xs ! m)"
    and rw: "\<forall>m. size_' v \<le> m \<and> m < length blk \<longrightarrow> blk ! m = Raw"
    by blast
  let ?n = "size_' v"
  have ab: "a \<noteq> b'" using ne Ptr i by auto
  from R obtain h2 where
    U: "Uninitialized_Move_Or_Copy_N T (Ptr a 0) ?n (Ptr b' 0) h = Return () h2" and
    D: "destroy_n (Ptr a 0) ?n h2 = Return u h3"
    by (auto simp: and_then_Return_iff GetAddress_def Ptr i)
  have bound: "?n \<le> length dblk"
    using Uninitialized_Move_Or_Copy_N_bound[OF U nb] by (cases "?n = 0") auto
  let ?H2 = "put_block a (fill 0 (map Live (src_after T xs)) blk)
                (put_block b' (fill 0 (map Live xs) dblk) h)"
  have spec: "Uninitialized_Move_Or_Copy_N T (Ptr a 0) ?n (Ptr b' 0) h =
     (if \<exists>x\<in>set xs. relocation_throws T x
      then Throws T_exception
             (if is_nothrow_move_constructible T \<or> \<not> is_copy_constructible T
              then put_block a
                     (fill 0 (map (\<lambda>x. Live (moved_from T x))
                        (takeWhile (\<lambda>x. \<not> move_ctor_throws T x) xs)) blk) h
              else h)
      else Return () ?H2)"
    using ab blk nb bound xs raw by (intro Uninitialized_Move_Or_Copy_N_spec) auto
  have nothrow: "\<forall>x\<in>set xs. \<not> relocation_throws T x"
    using U spec by (auto split: if_splits)
  have h2: "h2 = ?H2" using U spec nothrow by (auto split: if_splits)
  have al: "a < length (blocks h)" using blk(1) by (rule block_at_Some_less)
  have bl: "b' < length (blocks h)" using nb by (rule block_at_Some_less)
  let ?s2 = "fill 0 (map Live (src_after T xs)) blk"
  have s2: "block_at ?H2 a = Some ?s2" using al by (simp add: block_at_put_block)
  have len2: "length ?s2 = length blk" using blk(2) xs(1) by simp
  have live2: "\<forall>m<?n. is_Live (?s2 ! (0 + m))"
    using blk(2) xs(1) by (auto simp: nth_fill)
  have "destroy_n (Ptr a 0) ?n ?H2 = Return () (put_block a (fill 0 (replicate ?n Raw) ?s2) ?H2)"
    using s2 live2 len2 blk(2) by (intro destroy_n_block) auto
  moreover have "fill 0 (replicate ?n Raw) ?s2 = fill 0 (replicate ?n Raw) blk"
    using blk(2) xs(1) by (intro fill_fill) auto
  ultimately have h3: "h3 = put_block a (fill 0 (replicate ?n Raw) blk) (put_block b' (fill 0 (map Live xs) dblk) h)"
    using D h2 by simp
  have b3: "block_at h3 b' = Some (fill 0 (map Live xs) dblk)"
    using ab bl by (simp add: h3 block_at_put_block)
  have a3: "block_at h3 a = Some (fill 0 (replicate ?n Raw) blk)"
    using al by (simp add: h3 block_at_put_block)
  have allraw: "\<forall>m<length (fill 0 (replicate ?n Raw) blk). fill 0 (replicate ?n Raw) blk ! m = Raw"
    using blk(2) rw by (auto simp: nth_fill)
  have at: "\<forall>i<?n. Vector_at h v i = Some (xs ! i)"
    using Ptr i blk xs(2) by (auto intro: Vector_at_Ptr)
  show ?thesis
    using xs(1) at bound b3 a3 allraw nothrow ab by (auto simp: Ptr h3)
qed

lemma release_old:
  assumes "case buffer_' d of
         nullptr \<Rightarrow> h3 = h
       | Ptr a i \<Rightarrow> a \<noteq> b' \<and> (\<exists>sblk. block_at h3 a = Some sblk \<and> (\<forall>m<length sblk. sblk ! m = Raw))"
    and "case buffer_' d of nullptr \<Rightarrow> True | Ptr a i \<Rightarrow> i = 0"
  shows "\<exists>h4. RawMemory_dtor d h3 = Return () h4 \<and> block_at h4 b' = block_at h3 b' \<and>
     leaked h4 = leaked h3 \<and> limit h4 = limit h3 \<and> length (blocks h4) = length (blocks h3)"
proof (cases "buffer_' d")
  case nullptr
  then show ?thesis by (simp add: RawMemory_dtor_def)
next
  case (Ptr a i)
  with assms obtain sblk where s: "i = 0" "a \<noteq> b'" "block_at h3 a = Some sblk" "\<forall>m<length sblk. sblk ! m = Raw"
    by auto
  have "live_values sblk = []" using s(4) by (rule live_values_Raw)
  then have "RawMemory_dtor d h3 = Return () (free_block a h3)"
    using Ptr s(1,3) by (simp add: RawMemory_dtor_def Deallocate_block del: Deallocate.simps)
  then show ?thesis using s(2) by (simp add: block_at_free_block)
qed

lemma Vector_inv_buffer_old:
  assumes "Vector_inv T h v" "block_at h b' = None"
  shows "buffer_' (data_' v) \<noteq> Ptr b' 0"
  using assms by (auto simp: Vector_inv_def split: option.splits)

lemma Vector_inv_buffer_offset:
  assumes "Vector_inv T h v"
  shows "case buffer_' (data_' v) of nullptr \<Rightarrow> True | Ptr a i \<Rightarrow> i = 0"
  using assms by (auto simp: Vector_inv_def split: ptr.splits)

lemma Vector_inv_new_block:
  assumes "Vector_inv T h v"
  shows "Vector_inv T (new_block m h) v"
proof -
  have "\<And>b blk. block_at h b = Some blk \<Longrightarrow> block_at (new_block m h) b = Some blk"
    by (auto simp: block_at_new_block dest: block_at_Some_less)
  then show ?thesis using assms
    by (auto simp: Vector_inv_def split: ptr.splits option.splits)
qed

lemma Vector_at_new_block:
  assumes "Vector_inv T h v"
  shows "Vector_at (new_block m h) v i = Vector_at h v i"
proof (cases "buffer_' (data_' v)")
  case nullptr
  then show ?thesis by (simp add: Vector_at_def RawMemory_at_def deref_def)
next
  case (Ptr a j)
  from Vector_inv_PtrD[OF assms Ptr] obtain blk where "block_at h a = Some blk" by blast
  moreover from this have "block_at (new_block m h) a = Some blk"
    by (auto simp: block_at_new_block dest: block_at_Some_less)
  ultimately show ?thesis using Ptr by (simp add: Vector_at_def RawMemory_at_def deref_def)
qed

lemma RawMemory_ctor_cases:
  "RawMemory_ctor T n h = Throws bad_alloc h \<or>
   (n = 0 \<and> RawMemory_ctor T n h = Return \<lparr>buffer_' = nullptr, capacity_' = n\<rparr> h) \<or>
   (n \<noteq> 0 \<and> size_t_of (n * sizeof_T T) \<le> limit h \<and>
    RawMemory_ctor T n h = Return \<lparr>buffer_' = Ptr (length (blocks h)) 0, capacity_' = n\<rparr>
      (new_block (size_t_of (n * sizeof_T T) div sizeof_T T) h))"
  using Allocate_cases[of T n h] by (auto simp: RawMemory_ctor_def)

lemma block_at_fresh [simp]: "block_at h (length (blocks h)) = None"
  by (simp add: block_at_def)

lemma RawMemory_Swap_eq: "RawMemory_Swap a b = (b, a)"
  by (cases a, cases b) (simp add: RawMemory_Swap_def)

lemma Reserve_grow_Return:
  assumes inv: "Vector_inv T h v" and gt: "capacity_' (data_' v) < n"
    and R: "Reserve T n v h = Return u (v', h')"
  shows "\<exists>m xs. m \<le> n \<and> m * sizeof_T T \<le> SIZE_MAX \<and>
      (n * sizeof_T T \<le> SIZE_MAX \<longrightarrow> m = n) \<and>
      v' = v\<lparr>data_' := \<lparr>buffer_' = Ptr (length (blocks h)) 0, capacity_' = n\<rparr>\<rparr> \<and>
      length xs = size_' v \<and> size_' v \<le> m \<and>
      (\<forall>i<size_' v. Vector_at h v i = Some (xs ! i)) \<and>
      block_at h' (length (blocks h)) = Some (fill 0 (map Live xs) (replicate m Raw)) \<and>
      leaked h' = leaked h \<and> limit h' = limit h \<and> length (blocks h') = Suc (length (blocks h))"
proof -
  let ?b = "length (blocks h)"
  let ?m = "size_t_of (n * sizeof_T T) div sizeof_T T"
  let ?h1 = "new_block ?m h"
  let ?nd = "\<lparr>buffer_' = Ptr ?b 0, capacity_' = n\<rparr>"
  have sz: "0 < sizeof_T T" using inv by (simp add: Vector_inv_def)
  from gt have n0: "n \<noteq> 0" by simp
  from R gt have R1: "commit v
          (and_then (RawMemory_ctor T n h) (\<lambda>new_data h1.
           and_then
             (unwinding
                (and_then
                   (Uninitialized_Move_Or_Copy_N T (GetAddress (data_' v)) (size_' v)
                      (GetAddress new_data) h1) (\<lambda>u h2.
                 destroy_n (GetAddress (data_' v)) (size_' v) h2))
                (RawMemory_dtor new_data)) (\<lambda>u h3.
           case RawMemory_Swap (data_' v) new_data of (data1, new_data1) \<Rightarrow>
           and_then (RawMemory_dtor new_data1 h3) (\<lambda>u h4.
           Return (v\<lparr>data_' := data1\<rparr>) h4)))) = Return u (v', h')"
    by (simp add: Reserve_def RawMemory_Capacity_def)
  have ctor: "RawMemory_ctor T n h = Return ?nd ?h1"
    using RawMemory_ctor_cases[of T n h] R1 n0 by auto
  from R1 ctor obtain h3 where
    M: "and_then (Uninitialized_Move_Or_Copy_N T (GetAddress (data_' v)) (size_' v) (Ptr ?b 0) ?h1)
          (\<lambda>u h2. destroy_n (GetAddress (data_' v)) (size_' v) h2) = Return () h3" and
    F: "and_then (RawMemory_dtor (data_' v) h3) (\<lambda>u h4. Return (v\<lparr>data_' := ?nd\<rparr>) h4) = Return v' h'"
    by (auto simp: commit_Return_iff and_then_Return_iff unwinding_Return_iff GetAddress_def
        RawMemory_Swap_eq)
  have inv1: "Vector_inv T ?h1 v" using inv by (rule Vector_inv_new_block)
  have nb: "block_at ?h1 ?b = Some (replicate ?m Raw)" by (simp add: block_at_new_block)
  have ne: "buffer_' (data_' v) \<noteq> Ptr ?b 0"
    using inv by (rule Vector_inv_buffer_old) simp
  from migrate_Return[OF inv1 nb ne _ M] obtain xs where
    xs: "length xs = size_' v" "\<forall>i<size_' v. Vector_at ?h1 v i = Some (xs ! i)"
      "size_' v \<le> ?m" "block_at h3 ?b = Some (fill 0 (map Live xs) (replicate ?m Raw))"
      "leaked h3 = leaked h" "limit h3 = limit h" "length (blocks h3) = Suc (length (blocks h))"
    and old: "case buffer_' (data_' v) of
         nullptr \<Rightarrow> h3 = ?h1
       | Ptr a i \<Rightarrow> a \<noteq> ?b \<and> (\<exists>sblk. block_at h3 a = Some sblk \<and> (\<forall>m<length sblk. sblk ! m = Raw))"
    by auto
  from release_old[OF old Vector_inv_buffer_offset[OF inv]] obtain h4 where
    h4: "RawMemory_dtor (data_' v) h3 = Return () h4" "block_at h4 ?b = block_at h3 ?b"
      "leaked h4 = leaked h3" "limit h4 = limit h3" "length (blocks h4) = length (blocks h3)"
    by blast
  from F h4(1) have v': "v' = v\<lparr>data_' := ?nd\<rparr>" and h': "h' = h4" by auto
  have at: "\<forall>i<size_' v. Vector_at h v i = Some (xs ! i)"
    using xs(2) Vector_at_new_block[OF inv] by simp
  have m1: "?m \<le> n" by (rule slots_obtained(1))
  have m2: "?m * sizeof_T T \<le> SIZE_MAX" by (rule slots_obtained(2))
  have m3: "n * sizeof_T T \<le> SIZE_MAX \<longrightarrow> ?m = n"
    using slots_obtained(3)[OF sz] by blast
  show ?thesis
    using m1 m2 m3 xs at h4 v' h'
    by (intro exI[of _ ?m] exI[of _ xs]) simp
qed

lemma Reserve_noop:
  "new_capacity \<le> Capacity S \<Longrightarrow> Reserve T new_capacity S h = Return () (S, h)"
  by (simp add: Reserve_def Capacity_def)

lemma Reserve_Return:
  assumes inv: "Vector_inv T h v" and R: "Reserve T n v h = Return u (v', h')"
  shows "size_' v' = size_' v" and "capacity_' (data_' v') = max n (capacity_' (data_' v))"
    and "Vector_inv T h' v'" and "\<forall>i. Vector_at h' v' i = Vector_at h v i"
    and "leaked h' = leaked h" and "limit h' = limit h"
proof -
  have all: "size_' v' = size_' v \<and> capacity_' (data_' v') = max n (capacity_' (data_' v)) \<and>
      Vector_inv T h' v' \<and> (\<forall>i. Vector_at h' v' i = Vector_at h v i) \<and>
      leaked h' = leaked h \<and> limit h' = limit h"
  proof (cases "n \<le> capacity_' (data_' v)")
    case True
    then have "v' = v" "h' = h" using R by (simp_all add: Reserve_def RawMemory_Capacity_def)
    then show ?thesis using inv True by (simp add: max_def)
  next
    case False
    then have gt: "capacity_' (data_' v) < n" by simp
    let ?b = "length (blocks h)"
    from Reserve_grow_Return[OF inv gt R] obtain m xs where
      m: "m \<le> n" "m * sizeof_T T \<le> SIZE_MAX"
      and v': "v' = v\<lparr>data_' := \<lparr>buffer_' = Ptr ?b 0, capacity_' = n\<rparr>\<rparr>"
      and xs: "length xs = size_' v" "size_' v \<le> m" "\<forall>i<size_' v. Vector_at h v i = Some (xs ! i)"
      and blk: "block_at h' ?b = Some (fill 0 (map Live xs) (replicate m Raw))"
      and fr: "leaked h' = leaked h" "limit h' = limit h"
      by blast
    let ?blk = "fill 0 (map Live xs) (replicate m Raw)"
    have len: "length ?blk = m" using xs by simp
    have sz: "0 < sizeof_T T" using inv by (simp add: Vector_inv_def)
    have live: "\<forall>k<size_' v'. ?blk ! k = Live (xs ! k)"
      using xs by (auto simp: nth_fill v')
    have raw: "\<forall>k. size_' v' \<le> k \<and> k < length ?blk \<longrightarrow> ?blk ! k = Raw"
      using xs by (auto simp: nth_fill v')
    have inv': "Vector_inv T h' v'"
      using sz blk m xs live raw len
      by (intro Vector_invI[where b="?b" and blk="?blk"]) (auto simp: v')
    have at: "\<forall>i. Vector_at h' v' i = Vector_at h v i"
    proof
      fix i
      show "Vector_at h' v' i = Vector_at h v i"
      proof (cases "i < size_' v")
        case True
        have "Vector_at h' v' i = Some (xs ! i)"
          using blk True xs live len
          by (intro Vector_at_Ptr[where b="?b" and blk="?blk"]) (auto simp: v')
        then show ?thesis using xs(3) True by simp
      next
        case False
        then show ?thesis by (simp add: v')
      qed
    qed
    show ?thesis using inv' at fr gt by (simp add: v' max_def)
  qed
  show "size_' v' = size_' v" and "capacity_' (data_' v') = max n (capacity_' (data_' v))"
    and "Vector_inv T h' v'" and "\<forall>i. Vector_at h' v' i = Vector_at h v i"
    and "leaked h' = leaked h" and "limit h' = limit h"
    using all by blast+
qed

lemma loops_numeral:
  "destroy_n first (numeral k) h =
     and_then (destroy_at first h) (\<lambda>u h'. destroy_n (ptr_add first 1) (pred_numeral k) h')"
  "uninitialized_value_construct_from T first j (numeral k) h =
     and_then (unwinding (value_construct T (ptr_add first j) h) (destroy_n first j))
       (\<lambda>u h'. uninitialized_value_construct_from T first (Suc j) (pred_numeral k) h')"
  "uninitialized_copy_from T first d_first j (numeral k) h =
     and_then
       (unwinding (copy_construct T (ptr_add first j) (ptr_add d_first j) h) (destroy_n d_first j))
       (\<lambda>u h'. uninitialized_copy_from T first d_first (Suc j) (pred_numeral k) h')"
  "uninitialized_move_from T first d_first j (numeral k) h =
     and_then
       (unwinding (move_construct T (ptr_add first j) (ptr_add d_first j) h) (destroy_n d_first j))
       (\<lambda>u h'. uninitialized_move_from T first d_first (Suc j) (pred_numeral k) h')"
  "move_backward_loop T stop d_end (numeral k) h =
     and_then (move_assign T (ptr_sub stop 1) (ptr_sub d_end 1) h)
       (\<lambda>u h'. move_backward_loop T (ptr_sub stop 1) (ptr_sub d_end 1) (pred_numeral k) h')"
  by (simp_all add: numeral_eq_Suc)

lemma lists_numeral:
  "replicate (numeral k) x = x # replicate (pred_numeral k) x"
  "(y # ys)[numeral k := x] = y # ys[pred_numeral k := x]"
  by (simp_all add: numeral_eq_Suc)

lemmas run_defs = lists_numeral
  and_then_def unwinding_def with_this_def commit_def
  Allocate_def construct_at_def destroy_at_def deref_def
  construct_copy_def construct_move_def construct_args_def value_construct_def copy_construct_def
  move_construct_def copy_assign_def move_assign_def move_assign_from_def
  uninitialized_value_construct_n_def uninitialized_copy_n_def uninitialized_move_n_def
  move_backward_def RawMemory_default_def RawMemory_ctor_def RawMemory_Swap_def
  RawMemory_move_ctor_def RawMemory_move_assign_def RawMemory_dtor_def RawMemory_at_def
  GetAddress_def RawMemory_Capacity_def std_swap_RawMemory_def
  Vector_default_def Size_def Capacity_def Vector_begin_def Vector_end_def Vector_at_def
  Uninitialized_Move_Or_Copy_N_def Vector_Swap_def Vector_ctor_def Vector_copy_ctor_def
  Vector_move_ctor_def Vector_dtor_def
  block_at_def size_t_of_def loops_numeral

lemma Vector_inv_capacity_Ptr:
  assumes "Vector_inv T h v" "0 < capacity_' (data_' v)"
  shows "\<exists>b. buffer_' (data_' v) = Ptr b 0"
  using assms by (auto simp: Vector_inv_def split: ptr.splits)

lemma Resize_Return:
  assumes inv: "Vector_inv T h v" and R: "Resize T n v h = Return u (v', h')"
  shows "size_' v' = n \<and> capacity_' (data_' v') = max n (capacity_' (data_' v)) \<and>
    Vector_inv T h' v' \<and>
    (\<forall>i. i < size_' v \<and> i < n \<longrightarrow> Vector_at h' v' i = Vector_at h v i) \<and>
    (size_' v < n \<longrightarrow> (\<exists>d. value_init T = Some d \<and>
        (\<forall>i. size_' v \<le> i \<and> i < n \<longrightarrow> Vector_at h' v' i = Some d))) \<and>
    leaked h' = leaked h"
proof -
  from R obtain v1 h1 h2 where
    R1: "Reserve T n v h = Return () (v1, h1)" and
    R2: "(if size_' v1 > n then
             destroy_n (ptr_add (GetAddress (data_' v1)) n) (size_' v1 - n) h1
           else if size_' v1 < n then
             uninitialized_value_construct_n T (ptr_add (GetAddress (data_' v1)) (size_' v1))
               (n - size_' v1) h1
           else Return () h1) = Return () h2" and
    v': "v' = v1\<lparr>size_' := n\<rparr>" and h': "h' = h2"
    by (auto simp: Resize_def and_then_Return_iff with_this_Return_iff)
  note res = Reserve_Return[OF inv R1]
  have sz: "0 < sizeof_T T" using inv by (simp add: Vector_inv_def)
  have cap1: "capacity_' (data_' v') = max n (capacity_' (data_' v))"
    using res(2) by (simp add: v')
  show ?thesis
  proof (cases "size_' v = n")
    case True
    then have "h2 = h1" using R2 res(1) by simp
    moreover have "v' = v1" using True res(1) by (simp add: v')
    ultimately show ?thesis using res True cap1 by (simp add: h')
  next
    case False
    then have pos: "0 < capacity_' (data_' v1)"
      using res(1,2,3) by (auto simp: Vector_inv_def max_def split: ptr.splits option.splits)
    from Vector_inv_capacity_Ptr[OF res(3) pos] obtain b where b: "buffer_' (data_' v1) = Ptr b 0"
      by blast
    from Vector_inv_PtrD[OF res(3) b] obtain blk xs where
      blk: "block_at h1 b = Some blk" "size_' v1 \<le> length blk" "length blk \<le> capacity_' (data_' v1)"
        "length blk * sizeof_T T \<le> SIZE_MAX"
      and xs: "length xs = size_' v1" "\<forall>m<size_' v1. blk ! m = Live (xs ! m)"
      and rw: "\<forall>m. size_' v1 \<le> m \<and> m < length blk \<longrightarrow> blk ! m = Raw"
      by blast
    have bl: "b < length (blocks h1)" using blk(1) by (rule block_at_Some_less)
    have at1: "\<forall>i<size_' v1. Vector_at h1 v1 i = Some (xs ! i)"
      using b blk xs(2) by (auto intro: Vector_at_Ptr)
    show ?thesis
    proof (cases "n < size_' v")
      case True
      let ?blk' = "fill n (replicate (size_' v1 - n) Raw) blk"
      have d: "destroy_n (Ptr b n) (size_' v1 - n) h1 = Return () (put_block b ?blk' h1)"
        using blk True res(1) xs(2) by (intro destroy_n_block) auto
      then have h2: "h2 = put_block b ?blk' h1"
        using R2 True res(1) b by (simp add: GetAddress_def)
      have b2: "block_at h2 b = Some ?blk'" using bl by (simp add: h2 block_at_put_block)
      have len: "length ?blk' = length blk" using blk(2) True res(1) by simp
      have live: "\<forall>m<n. ?blk' ! m = Live (xs ! m)"
        using blk(2) True res(1) xs(2) by (auto simp: nth_fill)
      have raw: "\<forall>m. n \<le> m \<and> m < length ?blk' \<longrightarrow> ?blk' ! m = Raw"
        using blk(2) True res(1) rw by (auto simp: nth_fill)
      have inv': "Vector_inv T h2 v'"
        using sz b b2 blk True res(1) live raw len
        by (intro Vector_invI[where b=b and blk="?blk'"]) (auto simp: v')
      have at: "\<forall>i. i < size_' v \<and> i < n \<longrightarrow> Vector_at h2 v' i = Vector_at h v i"
      proof (intro allI impI)
        fix i assume i: "i < size_' v \<and> i < n"
        have "Vector_at h2 v' i = Some (xs ! i)"
          using b b2 blk True res(1) live len i
          by (intro Vector_at_Ptr[where b=b and blk="?blk'"]) (auto simp: v')
        then show "Vector_at h2 v' i = Vector_at h v i" using at1 res(1,4) i by simp
      qed
      show ?thesis using inv' at True cap1 res(5) by (simp add: h' v' h2)
    next
      case False
      with \<open>size_' v \<noteq> n\<close> have gt: "size_' v < n" by simp
      let ?k = "n - size_' v1"
      from R2 gt res(1) b have U: "uninitialized_value_construct_from T (Ptr b (size_' v1)) 0 ?k h1 = Return () h2"
        by (simp add: GetAddress_def uninitialized_value_construct_n_def)
      have bound: "n \<le> length blk"
        using uninitialized_value_construct_from_bound[OF U blk(1)] gt res(1) by simp
      have spec: "uninitialized_value_construct_from T (Ptr b (size_' v1)) 0 ?k h1 =
         (case value_init T of
            None \<Rightarrow> if ?k = 0 then Return () h1
                    else Throws T_exception (put_block b (fill (size_' v1) (replicate 0 Raw) blk) h1)
          | Some d \<Rightarrow> Return () (put_block b (fill (size_' v1 + 0) (replicate ?k (Live d)) blk) h1))"
        using blk(1) bound gt res(1) rw
        by (intro uninitialized_value_construct_from_spec) auto
      from U spec gt res(1) obtain d where d: "value_init T = Some d"
        by (cases "value_init T") auto
      let ?blk' = "fill (size_' v1) (replicate ?k (Live d)) blk"
      have h2: "h2 = put_block b ?blk' h1" using U spec d by simp
      have b2: "block_at h2 b = Some ?blk'" using bl by (simp add: h2 block_at_put_block)
      have len: "length ?blk' = length blk" using bound gt res(1) by simp
      have live: "\<forall>m<size_' v. ?blk' ! m = Live (xs ! m)"
        using bound gt res(1) xs(2) by (auto simp: nth_fill)
      have new: "\<forall>m. size_' v \<le> m \<and> m < n \<longrightarrow> ?blk' ! m = Live d"
        using bound gt res(1) by (auto simp: nth_fill)
      have raw: "\<forall>m. n \<le> m \<and> m < length ?blk' \<longrightarrow> ?blk' ! m = Raw"
        using bound gt res(1) rw by (auto simp: nth_fill)
      have alllive: "\<forall>m<n. is_Live (?blk' ! m)"
      proof (intro allI impI)
        fix m assume "m < n"
        then show "is_Live (?blk' ! m)" using live new by (cases "m < size_' v") auto
      qed
      have inv': "Vector_inv T h2 v'"
        using sz b b2 blk bound alllive raw len
        by (intro Vector_invI[where b=b and blk="?blk'"]) (auto simp: v')
      have at: "\<forall>i. i < size_' v \<and> i < n \<longrightarrow> Vector_at h2 v' i = Vector_at h v i"
      proof (intro allI impI)
        fix i assume i: "i < size_' v \<and> i < n"
        have "Vector_at h2 v' i = Some (xs ! i)"
          using b b2 bound live len i
          by (intro Vector_at_Ptr[where b=b and blk="?blk'"]) (auto simp: v')
        then show "Vector_at h2 v' i = Vector_at h v i" using at1 res(1,4) i by simp
      qed
      have atnew: "\<forall>i. size_' v \<le> i \<and> i < n \<longrightarrow> Vector_at h2 v' i = Some d"
      proof (intro allI impI)
        fix i assume i: "size_' v \<le> i \<and> i < n"
        show "Vector_at h2 v' i = Some d"
          using b b2 bound new len i
          by (intro Vector_at_Ptr[where b=b and blk="?blk'"]) (auto simp: v')
      qed
      show ?thesis using inv' at atnew d gt cap1 res(5) by (simp add: h' v' h2)
    qed
  qed
qed

lemma PopBack_empty: "size_' S = 0 \<Longrightarrow> PopBack S h = Return () (S, h)"
  by (simp add: PopBack_def)

lemma PopBack_nonempty:
  assumes inv: "Vector_inv T h v" and pos: "0 < size_' v"
  shows "\<exists>h' x. PopBack v h = Return () (v\<lparr>size_' := size_' v - 1\<rparr>, h') \<and>
     Vector_inv T h' (v\<lparr>size_' := size_' v - 1\<rparr>) \<and>
     Vector_at h v (size_' v - 1) = Some x \<and>
     slot_at h' (ptr_add (Vector_begin v) (size_' v - 1)) = Some Raw \<and>
     (\<forall>i<size_' v - 1. Vector_at h' (v\<lparr>size_' := size_' v - 1\<rparr>) i = Vector_at h v i) \<and>
     leaked h' = leaked h"
proof -
  let ?n = "size_' v"
  let ?v' = "v\<lparr>size_' := ?n - 1\<rparr>"
  obtain b where b: "buffer_' (data_' v) = Ptr b 0"
    using inv pos by (auto simp: Vector_inv_def split: ptr.splits)
  from Vector_inv_PtrD[OF inv b] obtain blk xs where
    blk: "block_at h b = Some blk" "?n \<le> length blk" "length blk \<le> capacity_' (data_' v)"
      "length blk * sizeof_T T \<le> SIZE_MAX"
    and xs: "length xs = ?n" "\<forall>m<?n. blk ! m = Live (xs ! m)"
    and rw: "\<forall>m. ?n \<le> m \<and> m < length blk \<longrightarrow> blk ! m = Raw"
    by blast
  have sz: "0 < sizeof_T T" using inv by (simp add: Vector_inv_def)
  have bl: "b < length (blocks h)" using blk(1) by (rule block_at_Some_less)
  let ?blk' = "blk[?n - 1 := Raw]"
  let ?h' = "put_block b ?blk' h"
  have last_live: "blk ! (?n - 1) = Live (xs ! (?n - 1))" using xs(2) pos by simp
  have d: "destroy_at (Ptr b (?n - 1)) h = Return () ?h'"
    using blk(1,2) pos last_live by (intro destroy_at_Live) auto
  have run: "PopBack v h = Return () (?v', ?h')"
    using pos b d by (simp add: PopBack_def GetAddress_def)
  have b': "block_at ?h' b = Some ?blk'" using bl by (simp add: block_at_put_block)
  have live: "\<forall>m<?n - 1. ?blk' ! m = Live (xs ! m)" using xs(2) by auto
  have raw: "\<forall>m. ?n - 1 \<le> m \<and> m < length ?blk' \<longrightarrow> ?blk' ! m = Raw"
    using rw blk(2) pos by (auto simp: nth_list_update)
  have inv': "Vector_inv T ?h' ?v'"
    using sz b b' blk live raw
    by (intro Vector_invI[where b=b and blk="?blk'"]) auto
  have atold: "\<forall>i<?n. Vector_at h v i = Some (xs ! i)"
    using b blk xs(2) by (auto intro: Vector_at_Ptr)
  have at: "\<forall>i<?n - 1. Vector_at ?h' ?v' i = Vector_at h v i"
  proof (intro allI impI)
    fix i assume i: "i < ?n - 1"
    have "Vector_at ?h' ?v' i = Some (xs ! i)"
      using b b' blk(2) live i by (intro Vector_at_Ptr[where b=b and blk="?blk'"]) auto
    then show "Vector_at ?h' ?v' i = Vector_at h v i" using atold i by simp
  qed
  have slot: "slot_at ?h' (ptr_add (Vector_begin v) (?n - 1)) = Some Raw"
    using b b' blk(2) pos by (simp add: Vector_begin_def GetAddress_def)
  show ?thesis using run inv' atold pos slot at by auto
qed

lemma PushBack_copy_body:
  "PushBack_copy T x this h =
     and_then (append_body (construct_copy T x) T this h)
       (\<lambda>u (this1, h1). Return () (this1\<lparr>size_' := size_t_of (size_' this1 + 1)\<rparr>, h1))"
  by (simp add: PushBack_copy_def append_body_def)

lemma PushBack_move_body:
  "PushBack_move T x this h =
     and_then (append_body (construct_move T x) T this h)
       (\<lambda>u (this1, h1). Return () (this1\<lparr>size_' := size_t_of (size_' this1 + 1)\<rparr>, h1))"
  by (simp add: PushBack_move_def append_body_def)

lemma EmplaceBack_body:
  "EmplaceBack T args this h =
     and_then (append_body (construct_args args) T this h)
       (\<lambda>u (this1, h1).
          (let this2 = this1\<lparr>size_' := size_t_of (size_' this1 + 1)\<rparr>
           in Return (ptr_add (buffer_' (data_' this2)) (size_' this2 - 1)) (this2, h1)))"
  by (simp add: EmplaceBack_def append_body_def)

lemma Vector_inv_put_block_other:
  assumes "Vector_inv T h v" "\<forall>i. buffer_' (data_' v) \<noteq> Ptr b i"
  shows "Vector_inv T (put_block b blk h) v"
  using assms by (auto simp: Vector_inv_def block_at_put_block split: ptr.splits option.splits)

lemma Vector_at_put_block_other:
  assumes "\<forall>i. buffer_' (data_' v) \<noteq> Ptr b i"
  shows "Vector_at (put_block b blk h) v k = Vector_at h v k"
  using assms
  by (cases "buffer_' (data_' v)")
     (auto simp: Vector_at_def RawMemory_at_def deref_def block_at_put_block)

lemma construct_at_Ptr_Return:
  assumes "construct_at (Ptr b i) x h = Return u h1" "block_at h b = Some blk"
  shows "i < length blk" and "blk ! i = Raw \<longrightarrow> h1 = put_block b (blk[i := Live x]) h"
  using assms
  by (auto simp: construct_at_def put_block_def split: if_splits slot.splits)

lemma construct_at_nullptr [simp]: "construct_at nullptr x h = Undefined"
  by (simp add: construct_at_def)

lemma double_no_wrap:
  assumes "s \<le> SIZE_MAX" "s < size_t_of (s * 2)"
  shows "size_t_of (s * 2) = s * 2"
proof (cases "s * 2 \<le> SIZE_MAX")
  case True
  then show ?thesis by (rule size_t_of_id)
next
  case False
  then have "size_t_of (s * 2) = s * 2 - 2 ^ 64"
    using assms(1) by (simp add: size_t_of_def SIZE_MAX_def mod_if)
  then show ?thesis using assms by (simp add: SIZE_MAX_def)
qed

lemma appended_facts:
  assumes sz: "0 < sizeof_T T"
    and b: "buffer_' (data_' w) = Ptr b 0" "block_at g b = Some blk"
    and len: "n < length blk" "length blk \<le> capacity_' (data_' w)" "length blk * sizeof_T T \<le> SIZE_MAX"
    and old: "\<forall>i<n. blk ! i = Live (xs ! i)"
    and new: "blk ! n = Live x"
    and raw: "\<forall>m. n < m \<and> m < length blk \<longrightarrow> blk ! m = Raw"
  shows "Vector_inv T g (w\<lparr>size_' := n + 1\<rparr>)"
    and "\<forall>i<n. Vector_at g (w\<lparr>size_' := n + 1\<rparr>) i = Some (xs ! i)"
    and "Vector_at g (w\<lparr>size_' := n + 1\<rparr>) n = Some x"
    and "n + 1 \<le> SIZE_MAX"
proof -
  have live: "\<forall>m<n + 1. is_Live (blk ! m)"
  proof (intro allI impI)
    fix m assume "m < n + 1"
    then show "is_Live (blk ! m)" using old new by (cases "m = n") auto
  qed
  show "Vector_inv T g (w\<lparr>size_' := n + 1\<rparr>)"
    using sz b len live raw by (intro Vector_invI[where b=b and blk=blk]) auto
  show "\<forall>i<n. Vector_at g (w\<lparr>size_' := n + 1\<rparr>) i = Some (xs ! i)"
    using b len old by (auto intro!: Vector_at_Ptr[where b=b and blk=blk])
  show "Vector_at g (w\<lparr>size_' := n + 1\<rparr>) n = Some x"
    using b len new by (auto intro!: Vector_at_Ptr[where b=b and blk=blk])
  have "length blk \<le> length blk * sizeof_T T" using sz by simp
  then show "n + 1 \<le> SIZE_MAX" using len(1,3) by linarith
qed

lemma append_body_Return:
  assumes inv: "Vector_inv T h v"
    and ctor: "\<And>p h. CTOR p h = (if thr then Throws T_exception h else construct_at p x h)"
    and R: "append_body CTOR T v h = Return u (v1, h1)"
  shows "\<not> thr \<and> size_' v1 = size_' v \<and>
    capacity_' (data_' v1) =
      (if size_' v = capacity_' (data_' v) then max 1 (2 * capacity_' (data_' v))
       else capacity_' (data_' v)) \<and>
    Vector_inv T h1 (v1\<lparr>size_' := size_' v + 1\<rparr>) \<and>
    (\<forall>i<size_' v. Vector_at h1 (v1\<lparr>size_' := size_' v + 1\<rparr>) i = Vector_at h v i) \<and>
    Vector_at h1 (v1\<lparr>size_' := size_' v + 1\<rparr>) (size_' v) = Some x \<and>
    size_' v + 1 \<le> SIZE_MAX \<and> leaked h1 = leaked h"
proof -
  let ?n = "size_' v"
  have sz: "0 < sizeof_T T" using inv by (simp add: Vector_inv_def)
  have ctorR: "\<And>p h h'. CTOR p h = Return () h' \<Longrightarrow> \<not> thr \<and> construct_at p x h = Return () h'"
    using ctor by (auto split: if_splits)
  consider (inplace) "?n \<noteq> capacity_' (data_' v)"
    | (first) "?n = capacity_' (data_' v)" "?n = 0"
    | (grow) "?n = capacity_' (data_' v)" "?n \<noteq> 0"
    by blast
  then show ?thesis
  proof cases
    case inplace
    from R inplace have C: "CTOR (ptr_add (buffer_' (data_' v)) ?n) h = Return () h1" and v1: "v1 = v"
      by (auto simp: append_body_def Capacity_def RawMemory_Capacity_def GetAddress_def
          with_this_Return_iff)
    from ctorR[OF C] have nthr: "\<not> thr" and c: "construct_at (ptr_add (buffer_' (data_' v)) ?n) x h = Return () h1"
      by auto
    obtain b where b: "buffer_' (data_' v) = Ptr b 0"
      using c inv by (cases "buffer_' (data_' v)") (auto simp: Vector_inv_def)
    from Vector_inv_PtrD[OF inv b] obtain blk xs where
      blk: "block_at h b = Some blk" "?n \<le> length blk" "length blk \<le> capacity_' (data_' v)"
        "length blk * sizeof_T T \<le> SIZE_MAX"
      and xs: "length xs = ?n" "\<forall>m<?n. blk ! m = Live (xs ! m)"
      and rw: "\<forall>m. ?n \<le> m \<and> m < length blk \<longrightarrow> blk ! m = Raw"
      by blast
    from c b have c': "construct_at (Ptr b ?n) x h = Return () h1" by simp
    from construct_at_Ptr_Return[OF c' blk(1)] rw have lt: "?n < length blk"
      and h1: "h1 = put_block b (blk[?n := Live x]) h" by auto
    let ?blk' = "blk[?n := Live x]"
    have bl: "b < length (blocks h)" using blk(1) by (rule block_at_Some_less)
    have b1: "block_at h1 b = Some ?blk'" using bl by (simp add: h1 block_at_put_block)
    have atold: "\<forall>i<?n. Vector_at h v i = Some (xs ! i)"
      using b blk xs(2) by (auto intro: Vector_at_Ptr)
    have f: "Vector_inv T h1 (v1\<lparr>size_' := ?n + 1\<rparr>)"
      "\<forall>i<?n. Vector_at h1 (v1\<lparr>size_' := ?n + 1\<rparr>) i = Some (xs ! i)"
      "Vector_at h1 (v1\<lparr>size_' := ?n + 1\<rparr>) ?n = Some x" "?n + 1 \<le> SIZE_MAX"
      using sz b b1 lt blk(3,4) xs(2) rw
      by (intro appended_facts[where b=b and blk="?blk'" and xs=xs and w=v1 and g=h1 and n="?n"]; auto simp: v1)+
    show ?thesis using nthr f atold inplace by (simp add: v1 h1)
  next
    case first
    from R first obtain v0 h0 where
      R0: "Reserve T 1 v h = Return () (v0, h0)" and
      C: "CTOR (ptr_add (buffer_' (data_' v0)) (size_' v0)) h0 = Return () h1" and v1: "v1 = v0"
      by (auto simp: append_body_def Capacity_def RawMemory_Capacity_def GetAddress_def
          and_then_Return_iff with_this_Return_iff)
    have gt: "capacity_' (data_' v) < 1" using first by simp
    let ?b = "length (blocks h)"
    from Reserve_grow_Return[OF inv gt R0] obtain m xs where
      m: "m \<le> 1" "m * sizeof_T T \<le> SIZE_MAX"
      and v0: "v0 = v\<lparr>data_' := \<lparr>buffer_' = Ptr ?b 0, capacity_' = 1\<rparr>\<rparr>"
      and blk: "block_at h0 ?b = Some (fill 0 (map Live xs) (replicate m Raw))"
      and xs: "length xs = ?n"
      and fr: "leaked h0 = leaked h"
      by blast
    have blk0: "block_at h0 ?b = Some (replicate m Raw)" using blk xs first by simp
    from ctorR[OF C] have nthr: "\<not> thr" and c: "construct_at (Ptr ?b 0) x h0 = Return () h1"
      using first by (auto simp: v0)
    from construct_at_Ptr_Return[OF c blk0] have lt: "0 < m"
      and h1: "h1 = put_block ?b ((replicate m Raw)[0 := Live x]) h0" by auto
    let ?blk' = "(replicate m Raw)[0 := Live x]"
    have bl: "?b < length (blocks h0)" using blk0 by (rule block_at_Some_less)
    have b1: "block_at h1 ?b = Some ?blk'" using bl by (simp add: h1 block_at_put_block)
    have f: "Vector_inv T h1 (v1\<lparr>size_' := 0 + 1\<rparr>)"
      "Vector_at h1 (v1\<lparr>size_' := 0 + 1\<rparr>) 0 = Some x" "(0::nat) + 1 \<le> SIZE_MAX"
      using sz b1 lt m
      by (intro appended_facts[where b="?b" and blk="?blk'" and xs="[]" and w=v1 and g=h1 and n=0]; auto simp: v1 v0 nth_list_update)+
    show ?thesis using nthr f first fr by (simp add: v1 v0 h1)
  next
    case grow
    let ?c = "size_t_of (?n * 2)"
    let ?b = "length (blocks h)"
    let ?m = "size_t_of (?c * sizeof_T T) div sizeof_T T"
    let ?h1 = "new_block ?m h"
    let ?nd = "\<lparr>buffer_' = Ptr ?b 0, capacity_' = ?c\<rparr>"
    from R grow have R1: "commit v
               (and_then (RawMemory_ctor T ?c h) (\<lambda>new_data h1.
                and_then
                  (unwinding
                     (and_then
                        (CTOR (ptr_add (GetAddress new_data) ?n) h1) (\<lambda>u h2.
                      and_then
                        (Uninitialized_Move_Or_Copy_N T (GetAddress (data_' v)) ?n
                           (GetAddress new_data) h2) (\<lambda>u h3.
                      destroy_n (GetAddress (data_' v)) ?n h3)))
                     (RawMemory_dtor new_data)) (\<lambda>u h4.
                case RawMemory_Swap (data_' v) new_data of (data1, new_data1) \<Rightarrow>
                and_then (RawMemory_dtor new_data1 h4) (\<lambda>u h5.
                Return (v\<lparr>data_' := data1\<rparr>) h5)))) = Return u (v1, h1)"
      by (simp add: append_body_def Capacity_def RawMemory_Capacity_def)
    have c0: "?c \<noteq> 0"
    proof
      assume "?c = 0"
      then have "RawMemory_ctor T ?c h = Throws bad_alloc h \<or>
          RawMemory_ctor T ?c h = Return \<lparr>buffer_' = nullptr, capacity_' = ?c\<rparr> h"
        using RawMemory_ctor_cases[of T ?c h] by auto
      then show False using R1 ctor
        by (auto simp: GetAddress_def commit_Return_iff and_then_Return_iff unwinding_Return_iff
            split: if_splits)
    qed
    have mk: "RawMemory_ctor T ?c h = Return ?nd ?h1"
      using RawMemory_ctor_cases[of T ?c h] R1 c0 by auto
    from R1 mk obtain h2 h4 where
      C: "CTOR (Ptr ?b ?n) ?h1 = Return () h2" and
      M: "and_then (Uninitialized_Move_Or_Copy_N T (GetAddress (data_' v)) ?n (Ptr ?b 0) h2)
            (\<lambda>u h3. destroy_n (GetAddress (data_' v)) ?n h3) = Return () h4" and
      F: "and_then (RawMemory_dtor (data_' v) h4) (\<lambda>u h5. Return (v\<lparr>data_' := ?nd\<rparr>) h5) = Return v1 h1"
      by (auto simp: commit_Return_iff and_then_Return_iff unwinding_Return_iff GetAddress_def
          RawMemory_Swap_eq)
    have nb1: "block_at ?h1 ?b = Some (replicate ?m Raw)" by (simp add: block_at_new_block)
    from ctorR[OF C] have nthr: "\<not> thr" and c: "construct_at (Ptr ?b ?n) x ?h1 = Return () h2"
      by auto
    from construct_at_Ptr_Return[OF c nb1] have lt: "?n < ?m"
      and h2: "h2 = put_block ?b ((replicate ?m Raw)[?n := Live x]) ?h1" by auto
    let ?d = "(replicate ?m Raw)[?n := Live x]"
    have ne: "\<forall>i. buffer_' (data_' v) \<noteq> Ptr ?b i"
      using inv by (auto simp: Vector_inv_def split: option.splits)
    have inv1: "Vector_inv T ?h1 v" using inv by (rule Vector_inv_new_block)
    have inv2: "Vector_inv T h2 v" unfolding h2 using inv1 ne by (rule Vector_inv_put_block_other)
    have nb2: "block_at h2 ?b = Some ?d" by (simp add: h2 block_at_put_block)
    have rawd: "\<forall>k<?n. k < length ?d \<longrightarrow> ?d ! k = Raw" by auto
    from migrate_Return[OF inv2 nb2 ne[rule_format] rawd M] obtain xs where
      xs: "length xs = ?n" "\<forall>i<?n. Vector_at h2 v i = Some (xs ! i)"
        "block_at h4 ?b = Some (fill 0 (map Live xs) ?d)" "leaked h4 = leaked h2"
      and old: "case buffer_' (data_' v) of
           nullptr \<Rightarrow> h4 = h2
         | Ptr a i \<Rightarrow> a \<noteq> ?b \<and> (\<exists>sblk. block_at h4 a = Some sblk \<and> (\<forall>m<length sblk. sblk ! m = Raw))"
      by auto
    from release_old[OF old Vector_inv_buffer_offset[OF inv]] obtain h5 where
      h5: "RawMemory_dtor (data_' v) h4 = Return () h5" "block_at h5 ?b = block_at h4 ?b"
        "leaked h5 = leaked h4"
      by blast
    from F h5(1) have v1: "v1 = v\<lparr>data_' := ?nd\<rparr>" and h1: "h1 = h5" by auto
    let ?blk' = "fill 0 (map Live xs) ?d"
    have b1: "block_at h1 ?b = Some ?blk'" using h5(2) xs(3) by (simp add: h1)
    have m1: "?m \<le> ?c" by (rule slots_obtained(1))
    have m2: "?m * sizeof_T T \<le> SIZE_MAX" by (rule slots_obtained(2))
    have atold: "\<forall>i<?n. Vector_at h v i = Some (xs ! i)"
      using xs(2) by (simp add: h2 Vector_at_new_block[OF inv] Vector_at_put_block_other[OF ne])
    have nle: "?n \<le> SIZE_MAX"
    proof -
      have "?m \<le> ?m * sizeof_T T" using sz by simp
      then show ?thesis using lt m2 by linarith
    qed
    have cap: "?c = ?n * 2" using nle lt m1 by (intro double_no_wrap) auto
    have len: "length ?blk' = ?m" using xs(1) lt by simp
    have f: "Vector_inv T h1 (v1\<lparr>size_' := ?n + 1\<rparr>)"
      "\<forall>i<?n. Vector_at h1 (v1\<lparr>size_' := ?n + 1\<rparr>) i = Some (xs ! i)"
      "Vector_at h1 (v1\<lparr>size_' := ?n + 1\<rparr>) ?n = Some x" "?n + 1 \<le> SIZE_MAX"
      using sz b1 lt m1 m2 xs(1) len
      by (intro appended_facts[where b="?b" and blk="?blk'" and xs=xs and w=v1 and g=h1 and n="?n"]; auto simp: v1 nth_fill)+
    have fr: "leaked h1 = leaked h" using h5(3) xs(4) by (simp add: h1 h2)
    show ?thesis using nthr f atold grow fr cap by (simp add: v1)
  qed
qed

lemma append_final:
  assumes inv: "Vector_inv T h v"
    and ctor: "\<And>p h. CTOR p h = (if thr then Throws T_exception h else construct_at p x h)"
    and R: "append_body CTOR T v h = Return u (v1, h1)"
  shows "\<not> thr" and "size_t_of (size_' v1 + 1) = size_' v + 1"
    and "v1\<lparr>size_' := size_t_of (size_' v1 + 1)\<rparr> = v1\<lparr>size_' := size_' v + 1\<rparr>"
  using append_body_Return[OF inv ctor R] by (simp_all add: size_t_of_id)

lemma Append_Return:
  assumes inv: "Vector_inv T h v" and R: "Append T a v h = Return u (v', h')"
  shows "size_' v' = size_' v + 1 \<and>
    capacity_' (data_' v') =
      (if size_' v = capacity_' (data_' v) then max 1 (2 * capacity_' (data_' v))
       else capacity_' (data_' v)) \<and>
    Vector_inv T h' v' \<and>
    (\<forall>i<size_' v. Vector_at h' v' i = Vector_at h v i) \<and>
    Vector_at h' v' (size_' v) = Some (appended a) \<and> leaked h' = leaked h"
proof -
  have gen: "\<And>CTOR thr x. (\<And>p h. CTOR p h = (if thr then Throws T_exception h else construct_at p x h)) \<Longrightarrow>
      append_body CTOR T v h = Return () (v1, h1) \<Longrightarrow>
      v' = v1\<lparr>size_' := size_t_of (size_' v1 + 1)\<rparr> \<Longrightarrow> h' = h1 \<Longrightarrow>
      size_' v' = size_' v + 1 \<and>
      capacity_' (data_' v') =
        (if size_' v = capacity_' (data_' v) then max 1 (2 * capacity_' (data_' v))
         else capacity_' (data_' v)) \<and>
      Vector_inv T h' v' \<and>
      (\<forall>i<size_' v. Vector_at h' v' i = Vector_at h v i) \<and>
      Vector_at h' v' (size_' v) = Some x \<and> leaked h' = leaked h" for v1 h1
  proof -
    fix CTOR :: "ptr \<Rightarrow> 'a heap \<Rightarrow> (unit, 'a heap) outcome" and thr x
    assume ctor: "\<And>p h. CTOR p h = (if thr then Throws T_exception h else construct_at p x h)"
      and B: "append_body CTOR T v h = Return () (v1, h1)"
      and v': "v' = v1\<lparr>size_' := size_t_of (size_' v1 + 1)\<rparr>" and h': "h' = h1"
    have e: "v' = v1\<lparr>size_' := size_' v + 1\<rparr>"
      using append_final(3)[OF inv ctor B] v' by simp
    show "size_' v' = size_' v + 1 \<and>
      capacity_' (data_' v') =
        (if size_' v = capacity_' (data_' v) then max 1 (2 * capacity_' (data_' v))
         else capacity_' (data_' v)) \<and>
      Vector_inv T h' v' \<and>
      (\<forall>i<size_' v. Vector_at h' v' i = Vector_at h v i) \<and>
      Vector_at h' v' (size_' v) = Some x \<and> leaked h' = leaked h"
      using append_body_Return[OF inv ctor B] unfolding e h' by simp
  qed
  show ?thesis
  proof (cases a)
    case (ByCopy x)
    with R obtain v1 h1 where "append_body (construct_copy T x) T v h = Return () (v1, h1)"
      "v' = v1\<lparr>size_' := size_t_of (size_' v1 + 1)\<rparr>" "h' = h1"
      by (auto simp: PushBack_copy_body and_then_Return_iff)
    from gen[OF _ this, of "copy_ctor_throws T x" x] show ?thesis
      using ByCopy by (simp add: construct_copy_def)
  next
    case (ByMove x)
    with R obtain v1 h1 where "append_body (construct_move T x) T v h = Return () (v1, h1)"
      "v' = v1\<lparr>size_' := size_t_of (size_' v1 + 1)\<rparr>" "h' = h1"
      by (auto simp: PushBack_move_body and_then_Return_iff)
    from gen[OF _ this, of "move_ctor_throws T x" x] show ?thesis
      using ByMove by (simp add: construct_move_def)
  next
    case (InPlace x)
    with R obtain v1 h1 where "append_body (construct_args (Some x)) T v h = Return () (v1, h1)"
      "v' = v1\<lparr>size_' := size_t_of (size_' v1 + 1)\<rparr>" "h' = h1"
      by (auto simp: EmplaceBack_body and_then_Return_iff Let_def)
    from gen[OF _ this, of False x] show ?thesis
      using InPlace by (simp add: construct_args_def)
  qed
qed

lemma doubled_step:
  assumes "doubled n c"
  shows "doubled (n + 1) (if n = c then max 1 (2 * c) else c)"
proof -
  from assms consider (zero) "n = 0" "c = 0" | (pow) k where "c = 2 ^ k" "n \<le> c" "c < 2 * n"
    unfolding doubled_def by blast
  then show ?thesis
  proof cases
    case zero
    have "(1::nat) = 2 ^ 0" by simp
    then show ?thesis using zero unfolding doubled_def by (intro disjI2 exI[of _ 0]) simp
  next
    case pow
    show ?thesis
    proof (cases "n = c")
      case True
      have "max 1 (2 * c) = 2 ^ Suc k" using pow(1) by simp
      moreover have "n + 1 \<le> 2 ^ Suc k" using True pow(1) by simp
      moreover have "(2::nat) ^ Suc k < 2 * (n + 1)" using True pow(1) by simp
      ultimately show ?thesis using True unfolding doubled_def
        by (intro disjI2 exI[of _ "Suc k"]) simp
    next
      case False
      then show ?thesis using pow unfolding doubled_def
        by (intro disjI2 exI[of _ k]) simp
    qed
  qed
qed

lemma Appends_Return:
  assumes "Vector_inv T h v" "Appends T as v h = Return u (v', h')"
    and "doubled (size_' v) (capacity_' (data_' v))"
  shows "Vector_inv T h' v' \<and> size_' v' = size_' v + length as \<and>
    doubled (size_' v') (capacity_' (data_' v'))"
  using assms
proof (induction as arbitrary: v h)
  case Nil
  then show ?case by simp
next
  case (Cons a as)
  from Cons.prems(2) obtain v1 h1 where
    A: "Append T a v h = Return () (v1, h1)" and rest: "Appends T as v1 h1 = Return u (v', h')"
    by (auto simp: and_then_Return_iff)
  note step = Append_Return[OF Cons.prems(1) A]
  have d1: "doubled (size_' v1) (capacity_' (data_' v1))"
    using doubled_step[OF Cons.prems(3)] step by simp
  from Cons.IH[OF _ rest d1] step have
    i: "Vector_inv T h' v'" and s: "size_' v' = size_' v1 + length as"
    and d: "doubled (size_' v') (capacity_' (data_' v'))" by blast+
  have "size_' v' = size_' v + length (a # as)" using s step by simp
  then show ?case using i d by blast
qed

lemma Vector_inv_default: "0 < sizeof_T T \<Longrightarrow> Vector_inv T h Vector_default"
  by (simp add: Vector_inv_def Vector_default_def RawMemory_default_def)

lemmas append_defs = PushBack_copy_def PushBack_move_def EmplaceBack_def Reserve_def

lemma Deallocate_Raw_block:
  "block_at h b = Some blk \<Longrightarrow> live_values blk = [] \<Longrightarrow>
   Deallocate (Ptr b 0) h = Return () (free_block b h)"
  by (simp add: free_block_def)

lemma Vector_dtor_Return:
  assumes inv: "Vector_inv T h v"
  shows "\<exists>h'. Vector_dtor v h = Return () h' \<and> leaked h' = leaked h \<and> limit h' = limit h \<and>
     length (blocks h') = length (blocks h) \<and>
     (\<forall>c. (\<forall>i. buffer_' (data_' v) \<noteq> Ptr c i) \<longrightarrow> block_at h' c = block_at h c)"
proof (cases "buffer_' (data_' v)")
  case nullptr
  then have "size_' v = 0" using inv by (rule Vector_inv_nullD[rotated])
  then show ?thesis using nullptr by (simp add: Vector_dtor_def GetAddress_def RawMemory_dtor_def)
next
  case (Ptr a i)
  from Vector_inv_PtrD[OF inv Ptr] obtain blk xs where
    i: "i = 0" and blk: "block_at h a = Some blk" "size_' v \<le> length blk"
    and xs: "\<forall>m<size_' v. blk ! m = Live (xs ! m)"
    and rw: "\<forall>m. size_' v \<le> m \<and> m < length blk \<longrightarrow> blk ! m = Raw"
    by blast
  let ?n = "size_' v"
  let ?blk' = "fill 0 (replicate ?n Raw) blk"
  let ?h1 = "put_block a ?blk' h"
  have al: "a < length (blocks h)" using blk(1) by (rule block_at_Some_less)
  have d: "destroy_n (Ptr a 0) ?n h = Return () ?h1"
    using blk xs by (intro destroy_n_block) auto
  have b1: "block_at ?h1 a = Some ?blk'" using al by (simp add: block_at_put_block)
  have allraw: "\<forall>m<length ?blk'. ?blk' ! m = Raw"
    using blk(2) rw by (auto simp: nth_fill)
  have lv: "live_values ?blk' = []" using allraw by (rule live_values_Raw)
  have "RawMemory_dtor (data_' v) ?h1 = Return () (free_block a ?h1)"
    using Ptr i Deallocate_Raw_block[OF b1 lv] by (simp add: RawMemory_dtor_def del: Deallocate.simps)
  then have run: "Vector_dtor v h = Return () (free_block a ?h1)"
    using d Ptr i by (simp add: Vector_dtor_def GetAddress_def)
  have frame: "\<forall>c. (\<forall>i. buffer_' (data_' v) \<noteq> Ptr c i) \<longrightarrow> block_at (free_block a ?h1) c = block_at h c"
    using Ptr by (auto simp: block_at_free_block block_at_put_block)
  show ?thesis using run frame by simp
qed

lemma Vector_copy_ctor_eq:
  assumes inv: "Vector_inv T h S" and pos: "0 < size_' S"
  shows "\<exists>xs. length xs = size_' S \<and> (\<forall>i<size_' S. Vector_at h S i = Some (xs ! i)) \<and>
    size_' S * sizeof_T T \<le> SIZE_MAX \<and>
    Vector_copy_ctor T S h =
      (if limit h < size_' S * sizeof_T T then Throws bad_alloc h
       else if \<exists>x\<in>set xs. copy_ctor_throws T x
       then Throws T_exception (free_block (length (blocks h)) (new_block (size_' S) h))
       else Return \<lparr>data_' = \<lparr>buffer_' = Ptr (length (blocks h)) 0, capacity_' = size_' S\<rparr>,
                    size_' = size_' S\<rparr>
              (put_block (length (blocks h)) (map Live xs) (new_block (size_' S) h)))"
proof -
  let ?n = "size_' S"
  let ?b = "length (blocks h)"
  obtain a where a: "buffer_' (data_' S) = Ptr a 0"
    using inv pos by (auto simp: Vector_inv_def split: ptr.splits)
  from Vector_inv_PtrD[OF inv a] obtain blk xs where
    blk: "block_at h a = Some blk" "?n \<le> length blk" "length blk * sizeof_T T \<le> SIZE_MAX"
    and xs: "length xs = ?n" "\<forall>m<?n. blk ! m = Live (xs ! m)"
    by blast
  have sz: "0 < sizeof_T T" using inv by (simp add: Vector_inv_def)
  have "?n * sizeof_T T \<le> length blk * sizeof_T T" using blk(2) by (rule mult_le_mono1)
  then have nowrap: "?n * sizeof_T T \<le> SIZE_MAX" using blk(3) by linarith
  then have bytes: "size_t_of (?n * sizeof_T T) = ?n * sizeof_T T" by (rule size_t_of_id)
  have m: "size_t_of (?n * sizeof_T T) div sizeof_T T = ?n" using sz by (simp add: bytes)
  have at: "\<forall>i<?n. Vector_at h S i = Some (xs ! i)"
    using a blk xs(2) by (auto intro: Vector_at_Ptr)
  show ?thesis
  proof (cases "limit h < ?n * sizeof_T T")
    case True
    then have "Vector_copy_ctor T S h = Throws bad_alloc h"
      using pos by (simp add: Vector_copy_ctor_def RawMemory_ctor_def Allocate_def bytes)
    then show ?thesis using True xs(1) at nowrap by auto
  next
    case False
    let ?h1 = "new_block ?n h"
    let ?nd = "\<lparr>buffer_' = Ptr ?b 0, capacity_' = ?n\<rparr>"
    have mk: "RawMemory_ctor T ?n h = Return ?nd ?h1"
      using False pos sz by (simp add: bytes RawMemory_ctor_def Allocate_def new_block_def)
    have ab: "a \<noteq> ?b" using blk(1) by (auto dest: block_at_Some_less)
    have s1: "block_at ?h1 a = Some blk" using blk(1) ab by (simp add: block_at_new_block)
    have d1: "block_at ?h1 ?b = Some (replicate ?n Raw)" by (simp add: block_at_new_block)
    have copy: "uninitialized_copy_from T (Ptr a 0) (Ptr ?b 0) 0 ?n ?h1 =
       (if \<exists>x\<in>set (drop 0 xs). copy_ctor_throws T x
        then Throws T_exception (put_block ?b (fill 0 (replicate 0 Raw) (replicate ?n Raw)) ?h1)
        else Return () (put_block ?b (fill (0 + 0) (map Live (drop 0 xs)) (replicate ?n Raw)) ?h1))"
      using ab s1 d1 blk(2) xs by (intro uninitialized_copy_from_spec) auto
    have full: "fill 0 (map Live xs) (replicate ?n Raw) = map Live xs"
      using xs(1) by (simp add: fill_def)
    have same: "put_block ?b (replicate ?n Raw) ?h1 = ?h1" using d1 by (rule put_block_same)
    have lv: "live_values (replicate ?n Raw) = []" by (rule live_values_Raw) simp
    have free: "RawMemory_dtor ?nd ?h1 = Return () (free_block ?b ?h1)"
      using Deallocate_Raw_block[OF d1 lv] by (simp add: RawMemory_dtor_def del: Deallocate.simps)
    have "Vector_copy_ctor T S h =
       (if \<exists>x\<in>set xs. copy_ctor_throws T x
        then Throws T_exception (free_block ?b ?h1)
        else Return \<lparr>data_' = ?nd, size_' = ?n\<rparr> (put_block ?b (map Live xs) ?h1))"
      using mk copy a free
      by (simp add: Vector_copy_ctor_def uninitialized_copy_n_def GetAddress_def full same)
    then show ?thesis using False xs(1) at nowrap by auto
  qed
qed

lemma block_at_free_new:
  "block_at (free_block (length (blocks h)) (new_block n h)) c = block_at h c"
  by (simp add: block_at_free_block block_at_new_block)

lemma copy_assign_swap:
  assumes invV: "Vector_inv T h V" and invS: "Vector_inv T h S"
    and gt: "capacity_' (data_' V) < size_' S"
  shows "\<exists>xs. length xs = size_' S \<and> (\<forall>i<size_' S. Vector_at h S i = Some (xs ! i)) \<and>
     (if limit h < size_' S * sizeof_T T \<or> (\<exists>x\<in>set xs. copy_ctor_throws T x)
      then \<exists>e h'. Vector_copy_assign T True V S h = Throws e (V, h') \<and>
             (\<forall>b. block_at h' b = block_at h b) \<and> leaked h' = leaked h \<and> limit h' = limit h
      else \<exists>V' h'. Vector_copy_assign T True V S h = Return () (V', h') \<and>
             size_' V' = size_' S \<and> (\<forall>i<size_' S. Vector_at h' V' i = Some (xs ! i)) \<and>
             Vector_inv T h' V' \<and> leaked h' = leaked h)"
proof -
  let ?n = "size_' S"
  let ?b = "length (blocks h)"
  let ?C = "\<lparr>data_' = \<lparr>buffer_' = Ptr ?b 0, capacity_' = ?n\<rparr>, size_' = ?n\<rparr>"
  have pos: "0 < ?n" using gt by simp
  have sz: "0 < sizeof_T T" using invV by (simp add: Vector_inv_def)
  from Vector_copy_ctor_eq[OF invS pos] obtain xs where
    xs: "length xs = ?n" "\<forall>i<?n. Vector_at h S i = Some (xs ! i)"
    and nowrap: "?n * sizeof_T T \<le> SIZE_MAX"
    and cc: "Vector_copy_ctor T S h =
      (if limit h < ?n * sizeof_T T then Throws bad_alloc h
       else if \<exists>x\<in>set xs. copy_ctor_throws T x
       then Throws T_exception (free_block ?b (new_block ?n h))
       else Return ?C (put_block ?b (map Live xs) (new_block ?n h)))"
    by blast
  have branch: "Size S > RawMemory_Capacity (data_' V)"
    using gt by (simp add: Size_def RawMemory_Capacity_def)
  show ?thesis
  proof (cases "limit h < ?n * sizeof_T T \<or> (\<exists>x\<in>set xs. copy_ctor_throws T x)")
    case True
    then have "Vector_copy_assign T True V S h = Throws bad_alloc (V, h) \<or>
        Vector_copy_assign T True V S h = Throws T_exception (V, free_block ?b (new_block ?n h))"
      using cc branch by (auto simp: Vector_copy_assign_def)
    then have "\<exists>e h'. Vector_copy_assign T True V S h = Throws e (V, h') \<and>
             (\<forall>b. block_at h' b = block_at h b) \<and> leaked h' = leaked h \<and> limit h' = limit h"
      by (auto simp: block_at_free_new)
    then show ?thesis using True xs by (intro exI[of _ xs]) simp
  next
    case False
    let ?h2 = "put_block ?b (map Live xs) (new_block ?n h)"
    have cc': "Vector_copy_ctor T S h = Return ?C ?h2" using cc False by auto
    have ne: "\<forall>i. buffer_' (data_' V) \<noteq> Ptr ?b i"
      using invV by (auto simp: Vector_inv_def split: option.splits)
    have inv2: "Vector_inv T ?h2 V"
      using Vector_inv_new_block[OF invV] ne by (rule Vector_inv_put_block_other)
    from Vector_dtor_Return[OF inv2] obtain h3 where
      h3: "Vector_dtor V ?h2 = Return () h3" "leaked h3 = leaked ?h2"
        "\<forall>c. (\<forall>i. buffer_' (data_' V) \<noteq> Ptr c i) \<longrightarrow> block_at h3 c = block_at ?h2 c"
      by blast
    have b3: "block_at h3 ?b = Some (map Live xs)"
      using h3(3) ne by (simp add: block_at_put_block)
    have run: "Vector_copy_assign T True V S h = Return () (?C, h3)"
      using cc' branch h3(1) by (simp add: Vector_copy_assign_def Vector_Swap_eq Size_def)
    have inv3: "Vector_inv T h3 ?C"
      using sz b3 xs(1) nowrap by (intro Vector_invI[where b="?b" and blk="map Live xs"]) auto
    have at: "\<forall>i<?n. Vector_at h3 ?C i = Some (xs ! i)"
      using b3 xs(1) by (auto intro!: Vector_at_Ptr[where b="?b" and blk="map Live xs"])
    have "\<exists>V' h'. Vector_copy_assign T True V S h = Return () (V', h') \<and>
             size_' V' = size_' S \<and> (\<forall>i<size_' S. Vector_at h' V' i = Some (xs ! i)) \<and>
             Vector_inv T h' V' \<and> leaked h' = leaked h"
      using run inv3 at h3(2) by (intro exI[of _ ?C] exI[of _ h3]) simp
    then show ?thesis using False xs by (intro exI[of _ xs]) simp
  qed
qed

lemma Vector_at_same_blocks:
  assumes "\<forall>b. block_at h' b = block_at h b"
  shows "Vector_at h' v i = Vector_at h v i"
  using assms
  by (cases "buffer_' (data_' v)") (simp_all add: Vector_at_def RawMemory_at_def deref_def)

lemma migrate_succeeds:
  assumes inv: "Vector_inv T h v" and nb: "block_at h b' = Some dblk"
    and ne: "buffer_' (data_' v) \<noteq> Ptr b' 0"
    and raw: "\<forall>m<size_' v. dblk ! m = Raw"
    and bound: "size_' v \<le> length dblk"
    and nothrow: "\<forall>i<size_' v. \<forall>x. Vector_at h v i = Some x \<longrightarrow> \<not> relocation_throws T x"
  shows "\<exists>h3. and_then (Uninitialized_Move_Or_Copy_N T (GetAddress (data_' v)) (size_' v) (Ptr b' 0) h)
              (\<lambda>u h2. destroy_n (GetAddress (data_' v)) (size_' v) h2) = Return () h3"
proof (cases "buffer_' (data_' v)")
  case nullptr
  then have "size_' v = 0" using inv by (rule Vector_inv_nullD[rotated])
  then show ?thesis using nullptr by (simp add: GetAddress_def)
next
  case (Ptr a i)
  from Vector_inv_PtrD[OF inv Ptr] obtain blk xs where
    i: "i = 0" and blk: "block_at h a = Some blk" "size_' v \<le> length blk"
    and xs: "length xs = size_' v" "\<forall>m<size_' v. blk ! m = Live (xs ! m)"
    by blast
  let ?n = "size_' v"
  have ab: "a \<noteq> b'" using ne Ptr i by auto
  have at: "\<forall>i<?n. Vector_at h v i = Some (xs ! i)"
    using Ptr i blk xs(2) by (auto intro: Vector_at_Ptr)
  have nt: "\<not> (\<exists>x\<in>set xs. relocation_throws T x)"
  proof
    assume "\<exists>x\<in>set xs. relocation_throws T x"
    then obtain k where k: "k < length xs" "relocation_throws T (xs ! k)"
      by (auto simp: in_set_conv_nth)
    then show False using at nothrow xs(1) by auto
  qed
  let ?H2 = "put_block a (fill 0 (map Live (src_after T xs)) blk)
                (put_block b' (fill 0 (map Live xs) dblk) h)"
  have "Uninitialized_Move_Or_Copy_N T (Ptr a 0) ?n (Ptr b' 0) h =
     (if \<exists>x\<in>set xs. relocation_throws T x
      then Throws T_exception
             (if is_nothrow_move_constructible T \<or> \<not> is_copy_constructible T
              then put_block a
                     (fill 0 (map (\<lambda>x. Live (moved_from T x))
                        (takeWhile (\<lambda>x. \<not> move_ctor_throws T x) xs)) blk) h
              else h)
      else Return () ?H2)"
    using ab blk nb bound xs raw by (intro Uninitialized_Move_Or_Copy_N_spec) auto
  then have U: "Uninitialized_Move_Or_Copy_N T (Ptr a 0) ?n (Ptr b' 0) h = Return () ?H2"
    using nt by simp
  have al: "a < length (blocks h)" using blk(1) by (rule block_at_Some_less)
  let ?s2 = "fill 0 (map Live (src_after T xs)) blk"
  have s2: "block_at ?H2 a = Some ?s2" using al by (simp add: block_at_put_block)
  have len2: "length ?s2 = length blk" using blk(2) xs(1) by simp
  have live2: "\<forall>m<?n. is_Live (?s2 ! (0 + m))"
    using blk(2) xs(1) by (auto simp: nth_fill)
  have "destroy_n (Ptr a 0) ?n ?H2 = Return () (put_block a (fill 0 (replicate ?n Raw) ?s2) ?H2)"
    using s2 live2 len2 blk(2) by (intro destroy_n_block) auto
  then show ?thesis using U Ptr i by (simp add: GetAddress_def)
qed

lemma RawMemory_ctor_fits:
  assumes "n \<noteq> 0" "0 < sizeof_T T" "n * sizeof_T T \<le> SIZE_MAX" "n * sizeof_T T \<le> limit h"
  shows "RawMemory_ctor T n h =
     Return \<lparr>buffer_' = Ptr (length (blocks h)) 0, capacity_' = n\<rparr> (new_block n h)"
  using assms by (simp add: RawMemory_ctor_def Allocate_def size_t_of_id new_block_def)

lemma Reserve_succeeds:
  assumes inv: "Vector_inv T h v" and gt: "capacity_' (data_' v) < n"
    and fits: "n * sizeof_T T \<le> SIZE_MAX" "n * sizeof_T T \<le> limit h"
    and nothrow: "\<forall>i<size_' v. \<forall>x. Vector_at h v i = Some x \<longrightarrow> \<not> relocation_throws T x"
  shows "\<exists>v' h'. Reserve T n v h = Return () (v', h') \<and> Vector_exact h' v'"
proof -
  let ?b = "length (blocks h)"
  let ?h1 = "new_block n h"
  let ?nd = "\<lparr>buffer_' = Ptr ?b 0, capacity_' = n\<rparr>"
  have sz: "0 < sizeof_T T" using inv by (simp add: Vector_inv_def)
  have mk: "RawMemory_ctor T n h = Return ?nd ?h1"
    using gt sz fits by (intro RawMemory_ctor_fits) auto
  have inv1: "Vector_inv T ?h1 v" using inv by (rule Vector_inv_new_block)
  have nb: "block_at ?h1 ?b = Some (replicate n Raw)" by (simp add: block_at_new_block)
  have ne: "buffer_' (data_' v) \<noteq> Ptr ?b 0"
    using inv by (rule Vector_inv_buffer_old) simp
  have le: "size_' v \<le> capacity_' (data_' v)"
    using inv by (auto simp: Vector_inv_def split: ptr.splits option.splits)
  have bound: "size_' v \<le> length (replicate n Raw)" using le gt by simp
  have raw: "\<forall>m<size_' v. replicate n Raw ! m = Raw" using bound by simp
  have nt1: "\<forall>i<size_' v. \<forall>x. Vector_at ?h1 v i = Some x \<longrightarrow> \<not> relocation_throws T x"
    using nothrow by (simp add: Vector_at_new_block[OF inv])
  from migrate_succeeds[OF inv1 nb ne raw bound nt1] obtain h3 where
    M: "and_then (Uninitialized_Move_Or_Copy_N T (GetAddress (data_' v)) (size_' v) (Ptr ?b 0) ?h1)
              (\<lambda>u h2. destroy_n (GetAddress (data_' v)) (size_' v) h2) = Return () h3"
    by blast
  have raw': "\<forall>m<size_' v. m < length (replicate n Raw) \<longrightarrow> replicate n Raw ! m = Raw" by simp
  from migrate_Return[OF inv1 nb ne raw' M] obtain xs where
    b3: "block_at h3 ?b = Some (fill 0 (map Live xs) (replicate n Raw))" "length xs = size_' v"
    and old: "case buffer_' (data_' v) of
         nullptr \<Rightarrow> h3 = ?h1
       | Ptr a i \<Rightarrow> a \<noteq> ?b \<and> (\<exists>sblk. block_at h3 a = Some sblk \<and> (\<forall>m<length sblk. sblk ! m = Raw))"
    by auto
  from release_old[OF old Vector_inv_buffer_offset[OF inv]] obtain h4 where
    h4: "RawMemory_dtor (data_' v) h3 = Return () h4" "block_at h4 ?b = block_at h3 ?b"
    by blast
  have run: "Reserve T n v h = Return () (v\<lparr>data_' := ?nd\<rparr>, h4)"
    using gt mk M h4(1)
    by (simp add: Reserve_def RawMemory_Capacity_def GetAddress_def RawMemory_Swap_eq)
  have "Vector_exact h4 (v\<lparr>data_' := ?nd\<rparr>)"
    using h4(2) b3 bound by (simp add: Vector_exact_def)
  then show ?thesis using run by blast
qed

lemma append_body_succeeds:
  assumes inv: "Vector_inv T h v" and ex: "Vector_exact h v"
    and ctor: "\<And>p h. CTOR p h = construct_at p x h"
    and fits: "size_' v = capacity_' (data_' v) \<Longrightarrow>
        max 1 (2 * size_' v) * sizeof_T T \<le> SIZE_MAX \<and> max 1 (2 * size_' v) * sizeof_T T \<le> limit h"
    and nothrow: "size_' v = capacity_' (data_' v) \<Longrightarrow>
        \<forall>i<size_' v. \<forall>y. Vector_at h v i = Some y \<longrightarrow> \<not> relocation_throws T y"
  shows "\<exists>v1 h1. append_body CTOR T v h = Return () (v1, h1) \<and> Vector_exact h1 v1 \<and>
     limit h1 = limit h"
proof -
  have sz: "0 < sizeof_T T" using inv by (simp add: Vector_inv_def)
  consider (inplace) "size_' v \<noteq> capacity_' (data_' v)"
    | (first) "size_' v = capacity_' (data_' v)" "size_' v = 0"
    | (grow) "size_' v = capacity_' (data_' v)" "size_' v \<noteq> 0"
    by blast
  then show ?thesis
  proof cases
    case inplace
    have nn: "buffer_' (data_' v) \<noteq> nullptr"
      using inv inplace by (auto simp: Vector_inv_def)
    then obtain b i where P: "buffer_' (data_' v) = Ptr b i" by (cases "buffer_' (data_' v)") auto
    from Vector_inv_PtrD[OF inv P] obtain blk where
      i: "i = 0" and blk: "block_at h b = Some blk" "size_' v \<le> length blk"
      and rw: "\<forall>m. size_' v \<le> m \<and> m < length blk \<longrightarrow> blk ! m = Raw"
      by blast
    have len: "length blk = capacity_' (data_' v)" using ex P blk(1) by (simp add: Vector_exact_def)
    have lt: "size_' v < length blk" using blk(2) len inplace by simp
    have raw: "blk ! size_' v = Raw" using rw lt by simp
    let ?h1 = "put_block b (blk[size_' v := Live x]) h"
    have c: "construct_at (Ptr b (size_' v)) x h = Return () ?h1"
      using blk(1) lt raw by (rule construct_at_Raw)
    have bl: "b < length (blocks h)" using blk(1) by (rule block_at_Some_less)
    have run: "append_body CTOR T v h = Return () (v, ?h1)"
      using inplace c P i
      by (simp add: append_body_def Capacity_def RawMemory_Capacity_def GetAddress_def ctor)
    have "Vector_exact ?h1 v" using P bl len by (simp add: Vector_exact_def block_at_put_block)
    moreover have "limit ?h1 = limit h" by simp
    ultimately show ?thesis using run by blast
  next
    case first
    have f1: "1 * sizeof_T T \<le> SIZE_MAX" "1 * sizeof_T T \<le> limit h"
      using fits[OF first(1)] first(2) by simp_all
    have gt: "capacity_' (data_' v) < 1" using first by simp
    have nt: "\<forall>i<size_' v. \<forall>y. Vector_at h v i = Some y \<longrightarrow> \<not> relocation_throws T y"
      using first(2) by simp
    from Reserve_succeeds[OF inv gt f1 nt] obtain v1 h1 where
      R: "Reserve T 1 v h = Return () (v1, h1)" and ex1: "Vector_exact h1 v1"
      by blast
    note res = Reserve_Return[OF inv R]
    have cap1: "capacity_' (data_' v1) = 1" using res(2) first by simp
    have s1: "size_' v1 = 0" using res(1) first by simp
    have nn: "buffer_' (data_' v1) \<noteq> nullptr"
      using res(3) cap1 by (auto simp: Vector_inv_def)
    then obtain b i where P: "buffer_' (data_' v1) = Ptr b i" by (cases "buffer_' (data_' v1)") auto
    from Vector_inv_PtrD[OF res(3) P] obtain blk where
      i: "i = 0" and blk: "block_at h1 b = Some blk"
      and rw: "\<forall>m. size_' v1 \<le> m \<and> m < length blk \<longrightarrow> blk ! m = Raw"
      by blast
    have len: "length blk = 1" using ex1 P blk cap1 by (simp add: Vector_exact_def)
    have raw: "blk ! 0 = Raw" using rw len s1 by simp
    let ?h2 = "put_block b (blk[0 := Live x]) h1"
    have c: "construct_at (Ptr b 0) x h1 = Return () ?h2"
      using blk raw len by (intro construct_at_Raw) auto
    have bl: "b < length (blocks h1)" using blk by (rule block_at_Some_less)
    have run: "append_body CTOR T v h = Return () (v1, ?h2)"
      using first R c P i s1
      by (simp add: append_body_def Capacity_def RawMemory_Capacity_def GetAddress_def ctor)
    have "Vector_exact ?h2 v1" using P bl len cap1 by (simp add: Vector_exact_def block_at_put_block)
    moreover have "limit ?h2 = limit h" using res(6) by simp
    ultimately show ?thesis using run by blast
  next
    case grow
    let ?n = "size_' v"
    let ?b = "length (blocks h)"
    let ?h1 = "new_block (2 * ?n) h"
    let ?nd = "\<lparr>buffer_' = Ptr ?b 0, capacity_' = 2 * ?n\<rparr>"
    have mx: "max 1 (2 * ?n) = 2 * ?n" using grow(2) by simp
    have f2: "2 * ?n * sizeof_T T \<le> SIZE_MAX" "2 * ?n * sizeof_T T \<le> limit h"
      using fits[OF grow(1)] mx by simp_all
    have "2 * ?n * 1 \<le> 2 * ?n * sizeof_T T" using sz by (intro mult_le_mono2) simp
    then have nw: "?n * 2 \<le> SIZE_MAX" using f2(1) by linarith
    have dbl: "size_t_of (?n * 2) = 2 * ?n" using nw by (simp add: size_t_of_id)
    have mk: "RawMemory_ctor T (size_t_of (?n * 2)) h = Return ?nd ?h1"
      unfolding dbl using grow(2) sz f2 by (intro RawMemory_ctor_fits) auto
    have inv1: "Vector_inv T ?h1 v" using inv by (rule Vector_inv_new_block)
    have nb1: "block_at ?h1 ?b = Some (replicate (2 * ?n) Raw)" by (simp add: block_at_new_block)
    let ?d2 = "(replicate (2 * ?n) Raw)[?n := Live x]"
    let ?h2 = "put_block ?b ?d2 ?h1"
    have c: "construct_at (Ptr ?b ?n) x ?h1 = Return () ?h2"
      using nb1 grow(2) by (intro construct_at_Raw) auto
    have ne: "buffer_' (data_' v) \<noteq> Ptr ?b 0"
      using inv by (rule Vector_inv_buffer_old) simp
    have ne': "\<forall>i. buffer_' (data_' v) \<noteq> Ptr ?b i"
      using inv by (auto simp: Vector_inv_def split: option.splits)
    have inv2: "Vector_inv T ?h2 v" using inv1 ne' by (rule Vector_inv_put_block_other)
    have nb2: "block_at ?h2 ?b = Some ?d2" by (simp add: block_at_put_block new_block_def)
    have raw: "\<forall>m<?n. ?d2 ! m = Raw" by simp
    have bound: "?n \<le> length ?d2" by simp
    have nt2: "\<forall>i<?n. \<forall>y. Vector_at ?h2 v i = Some y \<longrightarrow> \<not> relocation_throws T y"
      using nothrow[OF grow(1)]
      by (simp add: Vector_at_put_block_other[OF ne'] Vector_at_new_block[OF inv])
    from migrate_succeeds[OF inv2 nb2 ne raw bound nt2] obtain h3 where
      M: "and_then (Uninitialized_Move_Or_Copy_N T (GetAddress (data_' v)) ?n (Ptr ?b 0) ?h2)
              (\<lambda>u h2. destroy_n (GetAddress (data_' v)) ?n h2) = Return () h3"
      by blast
    have raw': "\<forall>m<?n. m < length ?d2 \<longrightarrow> ?d2 ! m = Raw" by simp
    from migrate_Return[OF inv2 nb2 ne raw' M] obtain xs where
      b3: "block_at h3 ?b = Some (fill 0 (map Live xs) ?d2)" "length xs = ?n"
      and l3: "limit h3 = limit ?h2"
      and old: "case buffer_' (data_' v) of
           nullptr \<Rightarrow> h3 = ?h2
         | Ptr a i \<Rightarrow> a \<noteq> ?b \<and> (\<exists>sblk. block_at h3 a = Some sblk \<and> (\<forall>m<length sblk. sblk ! m = Raw))"
      by auto
    from release_old[OF old Vector_inv_buffer_offset[OF inv]] obtain h4 where
      h4: "RawMemory_dtor (data_' v) h3 = Return () h4" "block_at h4 ?b = block_at h3 ?b"
        "limit h4 = limit h3"
      by blast
    have run: "append_body CTOR T v h = Return () (v\<lparr>data_' := ?nd\<rparr>, h4)"
      using grow mk c M h4(1)
      by (simp add: append_body_def Capacity_def RawMemory_Capacity_def GetAddress_def ctor
          RawMemory_Swap_eq)
    have "Vector_exact h4 (v\<lparr>data_' := ?nd\<rparr>)"
      using h4(2) b3 by (simp add: Vector_exact_def)
    moreover have "limit h4 = limit h" using h4(3) l3 by simp
    ultimately show ?thesis using run by blast
  qed
qed

lemma relocatableD:
  "relocatable T h v \<Longrightarrow> \<forall>i<size_' v. \<forall>x. Vector_at h v i = Some x \<longrightarrow> \<not> relocation_throws T x"
  by (auto simp: relocatable_def list_all_iff split: option.splits)

lemma relocatableI:
  "\<forall>i<size_' v. \<forall>x. Vector_at h v i = Some x \<longrightarrow> \<not> relocation_throws T x \<Longrightarrow> relocatable T h v"
  by (auto simp: relocatable_def list_all_iff split: option.splits)

lemma storage_for_mono: "storage_for T m h \<Longrightarrow> n \<le> m \<Longrightarrow> storage_for T n h"
  unfolding storage_for_def
  by (meson le_trans mult_le_mono1)

lemma Append_succeeds:
  assumes inv: "Vector_inv T h v" and ex: "Vector_exact h v"
    and nt: "\<not> append_throws T a"
    and fits: "size_' v = capacity_' (data_' v) \<Longrightarrow> storage_for T (max 1 (2 * size_' v)) h"
    and rel: "size_' v = capacity_' (data_' v) \<Longrightarrow> relocatable T h v"
  shows "\<exists>v' h'. Append T a v h = Return () (v', h') \<and> Vector_exact h' v' \<and> limit h' = limit h"
proof -
  have f: "size_' v = capacity_' (data_' v) \<Longrightarrow>
        max 1 (2 * size_' v) * sizeof_T T \<le> SIZE_MAX \<and> max 1 (2 * size_' v) * sizeof_T T \<le> limit h"
    using fits by (simp add: storage_for_def)
  have r: "size_' v = capacity_' (data_' v) \<Longrightarrow>
        \<forall>i<size_' v. \<forall>y. Vector_at h v i = Some y \<longrightarrow> \<not> relocation_throws T y"
    using rel by (rule relocatableD)
  have gen: "\<And>CTOR. (\<And>p h. CTOR p h = construct_at p (appended a) h) \<Longrightarrow>
      \<exists>v1 h1. append_body CTOR T v h = Return () (v1, h1) \<and> Vector_exact h1 v1 \<and> limit h1 = limit h"
    by (rule append_body_succeeds[OF inv ex _ f r])
  have exact_size: "\<And>g w n. Vector_exact g w \<Longrightarrow> Vector_exact g (w\<lparr>size_' := n\<rparr>)"
    by (simp add: Vector_exact_def cong: ptr.case_cong option.case_cong)
  show ?thesis
  proof (cases a)
    case (ByCopy x)
    have "\<And>p h. construct_copy T x p h = construct_at p (appended a) h"
      using nt ByCopy by (simp add: construct_copy_def)
    from gen[OF this] obtain v1 h1 where
      "append_body (construct_copy T x) T v h = Return () (v1, h1)" "Vector_exact h1 v1" "limit h1 = limit h"
      by blast
    then show ?thesis using ByCopy exact_size by (simp add: PushBack_copy_body)
  next
    case (ByMove x)
    have "\<And>p h. construct_move T x p h = construct_at p (appended a) h"
      using nt ByMove by (simp add: construct_move_def)
    from gen[OF this] obtain v1 h1 where
      "append_body (construct_move T x) T v h = Return () (v1, h1)" "Vector_exact h1 v1" "limit h1 = limit h"
      by blast
    then show ?thesis using ByMove exact_size by (simp add: PushBack_move_body)
  next
    case (InPlace x)
    have "\<And>p h. construct_args (Some x) p h = construct_at p (appended a) h"
      using InPlace by (simp add: construct_args_def)
    from gen[OF this] obtain v1 h1 where
      "append_body (construct_args (Some x)) T v h = Return () (v1, h1)" "Vector_exact h1 v1" "limit h1 = limit h"
      by blast
    then show ?thesis using InPlace exact_size by (simp add: EmplaceBack_body Let_def)
  qed
qed

lemma Vector_exact_default [simp]: "Vector_exact h Vector_default"
  by (simp add: Vector_exact_def Vector_default_def RawMemory_default_def)

lemma Appends_succeeds:
  assumes inv: "Vector_inv T h v" and ex: "Vector_exact h v"
    and nt: "\<forall>a\<in>set as. \<not> append_throws T a \<and> \<not> relocation_throws T (appended a)"
    and rel: "relocatable T h v"
    and fits: "storage_for T (2 * (size_' v + length as)) h"
  shows "\<exists>v' h'. Appends T as v h = Return () (v', h')"
  using assms
proof (induction as arbitrary: v h)
  case Nil
  then show ?case by simp
next
  case (Cons a as)
  have f: "storage_for T (max 1 (2 * size_' v)) h"
    using Cons.prems(5) by (rule storage_for_mono) simp
  have na: "\<not> append_throws T a" using Cons.prems(3) by simp
  from Append_succeeds[OF Cons.prems(1,2) na f Cons.prems(4)] obtain v1 h1 where
    A: "Append T a v h = Return () (v1, h1)" and ex1: "Vector_exact h1 v1"
    and l1: "limit h1 = limit h"
    by blast
  from Append_Return[OF Cons.prems(1) A] have
    s1: "size_' v1 = size_' v + 1" and inv1: "Vector_inv T h1 v1"
    and old: "\<forall>i<size_' v. Vector_at h1 v1 i = Vector_at h v i"
    and new: "Vector_at h1 v1 (size_' v) = Some (appended a)"
    by blast+
  have rel1: "relocatable T h1 v1"
  proof (rule relocatableI, intro allI impI)
    fix i x assume i: "i < size_' v1" and x: "Vector_at h1 v1 i = Some x"
    show "\<not> relocation_throws T x"
    proof (cases "i < size_' v")
      case True
      then have "Vector_at h v i = Some x" using old x by simp
      then show ?thesis using relocatableD[OF Cons.prems(4)] True by blast
    next
      case False
      then have "i = size_' v" using i s1 by simp
      then have "x = appended a" using new x by simp
      then show ?thesis using Cons.prems(3) by simp
    qed
  qed
  have f1: "storage_for T (2 * (size_' v1 + length as)) h1"
    using Cons.prems(5) s1 l1 by (simp add: storage_for_def)
  have nt1: "\<forall>a\<in>set as. \<not> append_throws T a \<and> \<not> relocation_throws T (appended a)"
    using Cons.prems(3) by simp
  from Cons.IH[OF inv1 ex1 nt1 rel1 f1] obtain v' h' where
    "Appends T as v1 h1 = Return () (v', h')" by blast
  then show ?case using A by simp
qed

lemma Resize_succeeds:
  assumes inv: "Vector_inv T h v" and ex: "Vector_exact h v"
    and grow: "capacity_' (data_' v) < n \<Longrightarrow> storage_for T n h \<and> relocatable T h v"
    and init: "size_' v < n \<Longrightarrow> value_init T \<noteq> None"
  shows "\<exists>v' h'. Resize T n v h = Return () (v', h')"
proof -
  have "\<exists>v1 h1. Reserve T n v h = Return () (v1, h1) \<and> Vector_exact h1 v1"
  proof (cases "capacity_' (data_' v) < n")
    case True
    from grow[OF True] have f: "n * sizeof_T T \<le> SIZE_MAX" "n * sizeof_T T \<le> limit h"
      and r: "\<forall>i<size_' v. \<forall>x. Vector_at h v i = Some x \<longrightarrow> \<not> relocation_throws T x"
      by (auto simp: storage_for_def dest: relocatableD)
    show ?thesis using inv True f r by (rule Reserve_succeeds)
  next
    case False
    then have "Reserve T n v h = Return () (v, h)"
      by (intro Reserve_noop) (simp add: Capacity_def RawMemory_Capacity_def)
    then show ?thesis using ex by blast
  qed
  then obtain v1 h1 where R: "Reserve T n v h = Return () (v1, h1)" and ex1: "Vector_exact h1 v1"
    by blast
  note res = Reserve_Return[OF inv R]
  have "\<exists>h2. (if size_' v1 > n then
             destroy_n (ptr_add (GetAddress (data_' v1)) n) (size_' v1 - n) h1
           else if size_' v1 < n then
             uninitialized_value_construct_n T (ptr_add (GetAddress (data_' v1)) (size_' v1))
               (n - size_' v1) h1
           else Return () h1) = Return () h2"
  proof (cases "size_' v = n")
    case True
    then show ?thesis using res(1) by simp
  next
    case False
    then have pos: "0 < capacity_' (data_' v1)"
      using res(1,2,3) by (auto simp: Vector_inv_def max_def split: ptr.splits option.splits)
    from Vector_inv_capacity_Ptr[OF res(3) pos] obtain b where b: "buffer_' (data_' v1) = Ptr b 0"
      by blast
    from Vector_inv_PtrD[OF res(3) b] obtain blk xs where
      blk: "block_at h1 b = Some blk" "size_' v1 \<le> length blk"
      and xs: "length xs = size_' v1" "\<forall>m<size_' v1. blk ! m = Live (xs ! m)"
      and rw: "\<forall>m. size_' v1 \<le> m \<and> m < length blk \<longrightarrow> blk ! m = Raw"
      by blast
    have len: "length blk = max n (capacity_' (data_' v))"
      using ex1 b blk(1) res(2) by (simp add: Vector_exact_def)
    show ?thesis
    proof (cases "n < size_' v")
      case True
      have "destroy_n (Ptr b n) (size_' v1 - n) h1 =
          Return () (put_block b (fill n (replicate (size_' v1 - n) Raw) blk) h1)"
        using blk True res(1) xs(2) by (intro destroy_n_block) auto
      then show ?thesis using True res(1) b by (simp add: GetAddress_def)
    next
      case F: False
      with False have gt: "size_' v < n" by simp
      from init[OF gt] obtain d where d: "value_init T = Some d" by blast
      let ?k = "n - size_' v1"
      have bound: "n \<le> length blk" using len by simp
      have "uninitialized_value_construct_from T (Ptr b (size_' v1)) 0 ?k h1 =
         (case value_init T of
            None \<Rightarrow> if ?k = 0 then Return () h1
                    else Throws T_exception (put_block b (fill (size_' v1) (replicate 0 Raw) blk) h1)
          | Some d \<Rightarrow> Return () (put_block b (fill (size_' v1 + 0) (replicate ?k (Live d)) blk) h1))"
        using blk(1) bound gt res(1) rw
        by (intro uninitialized_value_construct_from_spec) auto
      then show ?thesis using gt res(1) b d
        by (simp add: GetAddress_def uninitialized_value_construct_n_def)
    qed
  qed
  then obtain h2 where "(if size_' v1 > n then
             destroy_n (ptr_add (GetAddress (data_' v1)) n) (size_' v1 - n) h1
           else if size_' v1 < n then
             uninitialized_value_construct_n T (ptr_add (GetAddress (data_' v1)) (size_' v1))
               (n - size_' v1) h1
           else Return () h1) = Return () h2" by blast
  then have "Resize T n v h = Return () (v1\<lparr>size_' := n\<rparr>, h2)"
    using R by (simp add: Resize_def)
  then show ?thesis by blast
qed
section \<open>The claims\<close>

text \<open>
  C3.  Moving a \<open>RawMemory\<close> into a new object (move construction) gives the new object
  the source's address and capacity and resets the source to the empty state.  Move
  assignment between two objects swaps: the destination gets the source's address and
  capacity, and the source is left with the destination's former address and capacity.
\<close>

theorem RawMemory_move:
  "buffer_' (fst (RawMemory_move_ctor other)) = buffer_' other \<and>
   capacity_' (fst (RawMemory_move_ctor other)) = capacity_' other \<and>
   snd (RawMemory_move_ctor other) = \<lparr>buffer_' = nullptr, capacity_' = 0\<rparr> \<and>
   buffer_' (fst (RawMemory_move_assign True this rhs)) = buffer_' rhs \<and>
   capacity_' (fst (RawMemory_move_assign True this rhs)) = capacity_' rhs \<and>
   snd (RawMemory_move_assign True this rhs) = this"
  by (simp add: RawMemory_move_ctor_def RawMemory_move_assign_def RawMemory_Swap_def)

text \<open>
  C3, as stated, fails for move assignment: a source moved into a destination that owns
  a block is not reset to the empty state.
\<close>

theorem RawMemory_move_assign_source_not_reset:
  "snd (RawMemory_move_assign True \<lparr>buffer_' = Ptr 0 0, capacity_' = 2\<rparr>
          \<lparr>buffer_' = Ptr 1 0, capacity_' = 3\<rparr>) \<noteq> \<lparr>buffer_' = nullptr, capacity_' = 0\<rparr>"
  by (simp add: RawMemory_move_assign_def RawMemory_Swap_def)

text \<open>
  C6.  Move construction of a vector from \<open>S\<close> leaves \<open>S\<close> with size 0 and capacity 0;
  the new vector has the size, the capacity and the buffer of \<open>S\<close>, hence its elements
  in their order.  The free store is untouched.
\<close>

theorem Vector_move_ctor_spec:
  "\<exists>new S'. Vector_move_ctor T S h = Return (new, S') h \<and>
     Size S' = 0 \<and> Capacity S' = 0 \<and>
     Size new = Size S \<and> Capacity new = Capacity S \<and>
     Vector_begin new = Vector_begin S \<and>
     (\<forall>i. Vector_at h new i = Vector_at h S i)"
  by (simp add: Vector_move_ctor_def RawMemory_ctor_def Allocate_def Vector_Swap_eq
      Size_def Capacity_def RawMemory_Capacity_def)

text \<open>
  C8.  \<open>Reserve(new_capacity)\<close> on a vector that satisfies its invariant: when
  \<open>new_capacity\<close> is at most the capacity it returns at once with the vector and the free
  store as they were; whenever it returns, the capacity is the larger of the old
  capacity and \<open>new_capacity\<close> (so exactly \<open>new_capacity\<close> when that is larger), and the
  size and every element are unchanged; and it does return when \<open>new_capacity\<close> is larger
  than the capacity, \<open>operator new\<close> supplies the storage and the relocation of no element
  throws.
\<close>

theorem Reserve_spec:
  assumes "Vector_inv T h S"
  shows "(new_capacity \<le> Capacity S \<longrightarrow> Reserve T new_capacity S h = Return () (S, h)) \<and>
    (\<forall>S' h'. Reserve T new_capacity S h = Return () (S', h') \<longrightarrow>
       Capacity S' = max new_capacity (Capacity S) \<and> Size S' = Size S \<and>
       (\<forall>i. Vector_at h' S' i = Vector_at h S i) \<and> Vector_inv T h' S') \<and>
    (Capacity S < new_capacity \<and> storage_for T new_capacity h \<and> relocatable T h S \<longrightarrow>
       (\<exists>S' h'. Reserve T new_capacity S h = Return () (S', h')))"
proof (intro conjI allI impI)
  assume "new_capacity \<le> Capacity S"
  then show "Reserve T new_capacity S h = Return () (S, h)" by (rule Reserve_noop)
next
  assume a: "Capacity S < new_capacity \<and> storage_for T new_capacity h \<and> relocatable T h S"
  then have gt: "capacity_' (data_' S) < new_capacity"
    and f: "new_capacity * sizeof_T T \<le> SIZE_MAX" "new_capacity * sizeof_T T \<le> limit h"
    by (simp_all add: Capacity_def RawMemory_Capacity_def storage_for_def)
  from a have r: "\<forall>i<size_' S. \<forall>x. Vector_at h S i = Some x \<longrightarrow> \<not> relocation_throws T x"
    by (intro relocatableD) simp
  from Reserve_succeeds[OF assms gt f r]
  show "\<exists>S' h'. Reserve T new_capacity S h = Return () (S', h')" by blast
next
  fix S' h' assume R: "Reserve T new_capacity S h = Return () (S', h')"
  show "Capacity S' = max new_capacity (Capacity S)"
    using Reserve_Return(2)[OF assms R] by (simp add: Capacity_def RawMemory_Capacity_def)
  show "Size S' = Size S"
    using Reserve_Return(1)[OF assms R] by (simp add: Size_def)
  show "Vector_inv T h' S'" by (rule Reserve_Return(3)[OF assms R])
  fix i show "Vector_at h' S' i = Vector_at h S i"
    using Reserve_Return(4)[OF assms R] by blast
qed

theorem Reserve_spec_witness:
  "Vector_inv T_int \<lparr>blocks = [Some [Live 7, Raw]], limit = 100, leaked = []\<rparr>
     \<lparr>data_' = \<lparr>buffer_' = Ptr 0 0, capacity_' = 2\<rparr>, size_' = 1\<rparr> \<and>
   Reserve T_int 4 \<lparr>data_' = \<lparr>buffer_' = Ptr 0 0, capacity_' = 2\<rparr>, size_' = 1\<rparr>
     \<lparr>blocks = [Some [Live 7, Raw]], limit = 100, leaked = []\<rparr> =
   Return ()
     (\<lparr>data_' = \<lparr>buffer_' = Ptr 1 0, capacity_' = 4\<rparr>, size_' = 1\<rparr>,
      \<lparr>blocks = [None, Some [Live 7, Raw, Raw, Raw]], limit = 100, leaked = []\<rparr>) \<and>
   Capacity \<lparr>data_' = \<lparr>buffer_' = Ptr 1 0, capacity_' = 4\<rparr>, size_' = 1\<rparr> = 4 \<and>
   Size \<lparr>data_' = \<lparr>buffer_' = Ptr 1 0, capacity_' = 4\<rparr>, size_' = 1\<rparr> = 1 \<and>
   Vector_at \<lparr>blocks = [None, Some [Live 7, Raw, Raw, Raw]], limit = 100, leaked = []\<rparr>
     \<lparr>data_' = \<lparr>buffer_' = Ptr 1 0, capacity_' = 4\<rparr>, size_' = 1\<rparr> 0 = Some (7::int) \<and>
   storage_for T_int 4 \<lparr>blocks = [Some [Live 7, Raw]], limit = 100, leaked = []\<rparr> \<and>
   relocatable T_int \<lparr>blocks = [Some [Live 7, Raw]], limit = 100, leaked = []\<rparr>
     \<lparr>data_' = \<lparr>buffer_' = Ptr 0 0, capacity_' = 2\<rparr>, size_' = 1\<rparr>"
proof -
  let ?h = "\<lparr>blocks = [Some [Live (7::int), Raw]], limit = 100, leaked = []\<rparr>"
  let ?S = "\<lparr>data_' = \<lparr>buffer_' = Ptr 0 0, capacity_' = 2\<rparr>, size_' = 1\<rparr>"
  have inv: "Vector_inv T_int ?h ?S"
    by (simp add: Vector_inv_def T_int_def block_at_def SIZE_MAX_def)
  have run: "Reserve T_int 4 ?S ?h = Return ()
     (\<lparr>data_' = \<lparr>buffer_' = Ptr 1 0, capacity_' = 4\<rparr>, size_' = 1\<rparr>,
      \<lparr>blocks = [None, Some [Live 7, Raw, Raw, Raw]], limit = 100, leaked = []\<rparr>)"
    by (simp add: Reserve_def T_int_def run_defs)
  have at: "Vector_at ?h ?S 0 = Some 7"
    by (simp add: run_defs)
  have pre: "storage_for T_int 4 ?h" "relocatable T_int ?h ?S"
    by (simp_all add: storage_for_def relocatable_def relocation_throws_def T_int_def SIZE_MAX_def
        run_defs)
  show ?thesis
    using Reserve_spec[OF inv, of 4] run inv at pre
    by (simp add: Capacity_def Size_def RawMemory_Capacity_def)
qed

text \<open>
  C7.  Whenever \<open>Resize(n)\<close> returns on a vector that satisfies its invariant, the size
  is \<open>n\<close>, the elements at the indices below both the old size and \<open>n\<close> are the ones that
  were there, and when \<open>n\<close> is larger than the old size the default constructor has a
  value \<open>d\<close> and every element from the old size up to \<open>n\<close> is \<open>d\<close>.  It does return when
  the buffer has its full capacity, the default constructor does not throw if elements
  are added, and, if \<open>n\<close> is larger than the capacity, \<open>operator new\<close> supplies the storage
  and the relocation of no element throws.
\<close>

theorem Resize_spec:
  assumes "Vector_inv T h S"
  shows "(\<forall>S' h'. Resize T n S h = Return () (S', h') \<longrightarrow>
      Size S' = n \<and>
      (\<forall>i. i < min (Size S) n \<longrightarrow> Vector_at h' S' i = Vector_at h S i) \<and>
      (Size S < n \<longrightarrow> (\<exists>d. value_init T = Some d \<and>
          (\<forall>i. Size S \<le> i \<and> i < n \<longrightarrow> Vector_at h' S' i = Some d)))) \<and>
    (Vector_exact h S \<and> (Size S < n \<longrightarrow> value_init T \<noteq> None) \<and>
     (Capacity S < n \<longrightarrow> storage_for T n h \<and> relocatable T h S) \<longrightarrow>
       (\<exists>S' h'. Resize T n S h = Return () (S', h')))"
proof (rule conjI; intro allI impI)
  fix S' h' assume R: "Resize T n S h = Return () (S', h')"
  show "Size S' = n \<and>
      (\<forall>i. i < min (Size S) n \<longrightarrow> Vector_at h' S' i = Vector_at h S i) \<and>
      (Size S < n \<longrightarrow> (\<exists>d. value_init T = Some d \<and>
          (\<forall>i. Size S \<le> i \<and> i < n \<longrightarrow> Vector_at h' S' i = Some d)))"
    using Resize_Return[OF assms R] by (simp add: Size_def)
next
  assume a: "Vector_exact h S \<and> (Size S < n \<longrightarrow> value_init T \<noteq> None) \<and>
     (Capacity S < n \<longrightarrow> storage_for T n h \<and> relocatable T h S)"
  then have ex: "Vector_exact h S"
    and init: "size_' S < n \<Longrightarrow> value_init T \<noteq> None"
    and grow: "capacity_' (data_' S) < n \<Longrightarrow> storage_for T n h \<and> relocatable T h S"
    by (simp_all add: Size_def Capacity_def RawMemory_Capacity_def)
  show "\<exists>S' h'. Resize T n S h = Return () (S', h')"
    using assms ex grow init by (rule Resize_succeeds)
qed

theorem Resize_spec_witness:
  "Vector_inv T_int \<lparr>blocks = [Some [Live 7, Raw]], limit = 100, leaked = []\<rparr>
     \<lparr>data_' = \<lparr>buffer_' = Ptr 0 0, capacity_' = 2\<rparr>, size_' = 1\<rparr> \<and>
   Resize T_int 3 \<lparr>data_' = \<lparr>buffer_' = Ptr 0 0, capacity_' = 2\<rparr>, size_' = 1\<rparr>
     \<lparr>blocks = [Some [Live 7, Raw]], limit = 100, leaked = []\<rparr> =
   Return ()
     (\<lparr>data_' = \<lparr>buffer_' = Ptr 1 0, capacity_' = 3\<rparr>, size_' = 3\<rparr>,
      \<lparr>blocks = [None, Some [Live 7, Live 0, Live 0]], limit = 100, leaked = []\<rparr>) \<and>
   Size \<lparr>data_' = \<lparr>buffer_' = Ptr 1 0, capacity_' = 3\<rparr>, size_' = 3\<rparr> = 3 \<and>
   Vector_at \<lparr>blocks = [None, Some [Live 7, Live 0, Live 0]], limit = 100, leaked = []\<rparr>
     \<lparr>data_' = \<lparr>buffer_' = Ptr 1 0, capacity_' = 3\<rparr>, size_' = 3\<rparr> 0 = Some (7::int) \<and>
   Vector_at \<lparr>blocks = [None, Some [Live 7, Live 0, Live 0]], limit = 100, leaked = []\<rparr>
     \<lparr>data_' = \<lparr>buffer_' = Ptr 1 0, capacity_' = 3\<rparr>, size_' = 3\<rparr> 2 = Some (0::int) \<and>
   Vector_exact \<lparr>blocks = [Some [Live (7::int), Raw]], limit = 100, leaked = []\<rparr>
     \<lparr>data_' = \<lparr>buffer_' = Ptr 0 0, capacity_' = 2\<rparr>, size_' = 1\<rparr> \<and>
   storage_for T_int 3 \<lparr>blocks = [Some [Live 7, Raw]], limit = 100, leaked = []\<rparr> \<and>
   relocatable T_int \<lparr>blocks = [Some [Live 7, Raw]], limit = 100, leaked = []\<rparr>
     \<lparr>data_' = \<lparr>buffer_' = Ptr 0 0, capacity_' = 2\<rparr>, size_' = 1\<rparr>"
proof -
  let ?h = "\<lparr>blocks = [Some [Live (7::int), Raw]], limit = 100, leaked = []\<rparr>"
  let ?S = "\<lparr>data_' = \<lparr>buffer_' = Ptr 0 0, capacity_' = 2\<rparr>, size_' = 1\<rparr>"
  let ?h' = "\<lparr>blocks = [None, Some [Live (7::int), Live 0, Live 0]], limit = 100, leaked = []\<rparr>"
  let ?S' = "\<lparr>data_' = \<lparr>buffer_' = Ptr 1 0, capacity_' = 3\<rparr>, size_' = 3\<rparr>"
  have inv: "Vector_inv T_int ?h ?S"
    by (simp add: Vector_inv_def T_int_def block_at_def SIZE_MAX_def)
  have run: "Resize T_int 3 ?S ?h = Return () (?S', ?h')"
    by (simp add: Resize_def Reserve_def T_int_def run_defs)
  have at: "Vector_at ?h ?S 0 = Some 7" "value_init T_int = Some 0"
    by (simp_all add: run_defs T_int_def)
  have pre: "Vector_exact ?h ?S" "storage_for T_int 3 ?h" "relocatable T_int ?h ?S"
    by (simp_all add: Vector_exact_def storage_for_def relocatable_def relocation_throws_def
        T_int_def SIZE_MAX_def run_defs)
  from Resize_spec[OF inv, of 3] run have
    "Size ?S' = 3 \<and>
      (\<forall>i. i < min (Size ?S) 3 \<longrightarrow> Vector_at ?h' ?S' i = Vector_at ?h ?S i) \<and>
      (Size ?S < 3 \<longrightarrow> (\<exists>d. value_init T_int = Some d \<and>
          (\<forall>i. Size ?S \<le> i \<and> i < 3 \<longrightarrow> Vector_at ?h' ?S' i = Some d)))"
    by blast
  then have
    "Size ?S' = 3" "Vector_at ?h' ?S' 0 = Vector_at ?h ?S 0" "Vector_at ?h' ?S' 2 = Some 0"
    using at by (auto simp: Size_def)
  then show ?thesis using inv run at pre by simp
qed

text \<open>
  C10.  \<open>PopBack\<close> on an empty vector returns with the vector and the free store as they
  were.  On a non-empty vector that satisfies its invariant it returns, the size is one
  less, the capacity is the same, the slot of the former last element holds no object
  any more, and the elements before it are unchanged.
\<close>

theorem PopBack_spec:
  "(Size S = 0 \<longrightarrow> PopBack S h = Return () (S, h)) \<and>
   (Vector_inv T h S \<and> 0 < Size S \<longrightarrow>
      (\<exists>S' h' x. PopBack S h = Return () (S', h') \<and>
         Size S' = Size S - 1 \<and> Capacity S' = Capacity S \<and>
         Vector_at h S (Size S - 1) = Some x \<and>
         slot_at h' (ptr_add (Vector_begin S) (Size S - 1)) = Some Raw \<and>
         (\<forall>i<Size S - 1. Vector_at h' S' i = Vector_at h S i) \<and>
         Vector_inv T h' S'))"
proof (intro conjI impI)
  assume "Size S = 0"
  then show "PopBack S h = Return () (S, h)" by (simp add: Size_def PopBack_empty)
next
  assume a: "Vector_inv T h S \<and> 0 < Size S"
  then have inv: "Vector_inv T h S" and pos: "0 < size_' S" by (simp_all add: Size_def)
  from PopBack_nonempty[OF inv pos] obtain h' x where
    "PopBack S h = Return () (S\<lparr>size_' := size_' S - 1\<rparr>, h')"
    "Vector_inv T h' (S\<lparr>size_' := size_' S - 1\<rparr>)"
    "Vector_at h S (size_' S - 1) = Some x"
    "slot_at h' (ptr_add (Vector_begin S) (size_' S - 1)) = Some Raw"
    "\<forall>i<size_' S - 1. Vector_at h' (S\<lparr>size_' := size_' S - 1\<rparr>) i = Vector_at h S i"
    by blast
  then show "\<exists>S' h' x. PopBack S h = Return () (S', h') \<and>
         Size S' = Size S - 1 \<and> Capacity S' = Capacity S \<and>
         Vector_at h S (Size S - 1) = Some x \<and>
         slot_at h' (ptr_add (Vector_begin S) (Size S - 1)) = Some Raw \<and>
         (\<forall>i<Size S - 1. Vector_at h' S' i = Vector_at h S i) \<and>
         Vector_inv T h' S'"
    by (intro exI[of _ "S\<lparr>size_' := size_' S - 1\<rparr>"] exI[of _ h'] exI[of _ x])
       (simp add: Size_def Capacity_def)
qed

theorem PopBack_spec_witness:
  "PopBack Vector_default \<lparr>blocks = [], limit = 100, leaked = ([]::int list)\<rparr> =
     Return () (Vector_default, \<lparr>blocks = [], limit = 100, leaked = []\<rparr>) \<and>
   Vector_inv T_int \<lparr>blocks = [Some [Live 7, Live 8]], limit = 100, leaked = []\<rparr>
     \<lparr>data_' = \<lparr>buffer_' = Ptr 0 0, capacity_' = 2\<rparr>, size_' = 2\<rparr> \<and>
   0 < Size \<lparr>data_' = \<lparr>buffer_' = Ptr 0 0, capacity_' = 2\<rparr>, size_' = 2\<rparr> \<and>
   PopBack \<lparr>data_' = \<lparr>buffer_' = Ptr 0 0, capacity_' = 2\<rparr>, size_' = 2\<rparr>
     \<lparr>blocks = [Some [Live 7, Live 8]], limit = 100, leaked = []\<rparr> =
   Return ()
     (\<lparr>data_' = \<lparr>buffer_' = Ptr 0 0, capacity_' = 2\<rparr>, size_' = 1\<rparr>,
      \<lparr>blocks = [Some [Live (7::int), Raw]], limit = 100, leaked = []\<rparr>) \<and>
   Size \<lparr>data_' = \<lparr>buffer_' = Ptr 0 0, capacity_' = 2\<rparr>, size_' = 1\<rparr> = 1 \<and>
   Vector_at \<lparr>blocks = [Some [Live (7::int), Raw]], limit = 100, leaked = []\<rparr>
     \<lparr>data_' = \<lparr>buffer_' = Ptr 0 0, capacity_' = 2\<rparr>, size_' = 1\<rparr> 0 = Some 7"
proof -
  let ?h = "\<lparr>blocks = [Some [Live (7::int), Live 8]], limit = 100, leaked = []\<rparr>"
  let ?S = "\<lparr>data_' = \<lparr>buffer_' = Ptr 0 0, capacity_' = 2\<rparr>, size_' = 2\<rparr>"
  let ?h' = "\<lparr>blocks = [Some [Live (7::int), Raw]], limit = 100, leaked = []\<rparr>"
  let ?S' = "\<lparr>data_' = \<lparr>buffer_' = Ptr 0 0, capacity_' = 2\<rparr>, size_' = 1\<rparr>"
  let ?e = "\<lparr>blocks = [], limit = 100, leaked = ([]::int list)\<rparr>"
  have inv: "Vector_inv T_int ?h ?S"
    by (simp add: Vector_inv_def T_int_def block_at_def SIZE_MAX_def)
  have e: "Size Vector_default = 0" by (simp add: Size_def Vector_default_def)
  have pos: "0 < Size ?S" "Size ?S - 1 = 1" by (simp_all add: Size_def)
  have 1: "PopBack Vector_default ?e = Return () (Vector_default, ?e)"
    using PopBack_spec[of Vector_default ?e T_int] e by blast
  have run: "PopBack ?S ?h = Return () (?S', ?h')"
    by (simp add: PopBack_def run_defs)
  have old: "Vector_at ?h ?S 0 = Some 7" by (simp add: run_defs)
  from PopBack_spec[of ?S ?h T_int] inv pos(1) obtain S' h' where
    r: "PopBack ?S ?h = Return () (S', h')" "Size S' = Size ?S - 1"
      "\<forall>i<Size ?S - 1. Vector_at h' S' i = Vector_at ?h ?S i"
    by blast
  from r(1) run have "S' = ?S'" "h' = ?h'" by simp_all
  with r(2,3) pos(2) old have 2: "Size ?S' = 1" "Vector_at ?h' ?S' 0 = Some 7" by simp_all
  show ?thesis using 1 inv pos(1) run 2 by simp
qed

text \<open>
  C9.  Whenever \<open>PushBack(x)\<close>, by copy or by move, returns on a vector that satisfies
  its invariant, the size is the old size plus one, the element at the old size is \<open>x\<close>,
  and the elements before it are the ones that were there.  It does return when the
  buffer has its full capacity, the construction of the new element does not throw and,
  if the size is equal to the capacity, \<open>operator new\<close> supplies the storage and the
  relocation of no element throws.
\<close>

theorem PushBack_spec:
  assumes "Vector_inv T h S"
  shows "(\<forall>S' h'.
      PushBack_copy T x S h = Return () (S', h') \<or> PushBack_move T x S h = Return () (S', h') \<longrightarrow>
      Size S' = Size S + 1 \<and> Vector_at h' S' (Size S) = Some x \<and>
      (\<forall>i<Size S. Vector_at h' S' i = Vector_at h S i)) \<and>
    (Vector_exact h S \<and>
     (Size S = Capacity S \<longrightarrow> storage_for T (max 1 (2 * Size S)) h \<and> relocatable T h S) \<longrightarrow>
       (\<not> copy_ctor_throws T x \<longrightarrow> (\<exists>S' h'. PushBack_copy T x S h = Return () (S', h'))) \<and>
       (\<not> move_ctor_throws T x \<longrightarrow> (\<exists>S' h'. PushBack_move T x S h = Return () (S', h'))))"
proof (rule conjI; intro allI impI)
  assume a: "Vector_exact h S \<and>
     (Size S = Capacity S \<longrightarrow> storage_for T (max 1 (2 * Size S)) h \<and> relocatable T h S)"
  then have ex: "Vector_exact h S"
    and f: "size_' S = capacity_' (data_' S) \<Longrightarrow> storage_for T (max 1 (2 * size_' S)) h"
    and r: "size_' S = capacity_' (data_' S) \<Longrightarrow> relocatable T h S"
    by (simp_all add: Size_def Capacity_def RawMemory_Capacity_def)
  have c: "\<not> copy_ctor_throws T x \<longrightarrow> (\<exists>S' h'. PushBack_copy T x S h = Return () (S', h'))"
  proof
    assume "\<not> copy_ctor_throws T x"
    then have "\<not> append_throws T (ByCopy x)" by simp
    from Append_succeeds[OF assms ex this f r]
    show "\<exists>S' h'. PushBack_copy T x S h = Return () (S', h')" by auto
  qed
  have m: "\<not> move_ctor_throws T x \<longrightarrow> (\<exists>S' h'. PushBack_move T x S h = Return () (S', h'))"
  proof
    assume "\<not> move_ctor_throws T x"
    then have "\<not> append_throws T (ByMove x)" by simp
    from Append_succeeds[OF assms ex this f r]
    show "\<exists>S' h'. PushBack_move T x S h = Return () (S', h')" by auto
  qed
  show "(\<not> copy_ctor_throws T x \<longrightarrow> (\<exists>S' h'. PushBack_copy T x S h = Return () (S', h'))) \<and>
       (\<not> move_ctor_throws T x \<longrightarrow> (\<exists>S' h'. PushBack_move T x S h = Return () (S', h')))"
    using c m by (rule conjI)
next
  fix S' h'
  assume R: "PushBack_copy T x S h = Return () (S', h') \<or> PushBack_move T x S h = Return () (S', h')"
  from R have "\<exists>a. Append T a S h = Return () (S', h') \<and> appended a = x"
  proof
    assume "PushBack_copy T x S h = Return () (S', h')"
    then have "Append T (ByCopy x) S h = Return () (S', h') \<and> appended (ByCopy x) = x" by simp
    then show ?thesis by (rule exI)
  next
    assume "PushBack_move T x S h = Return () (S', h')"
    then have "Append T (ByMove x) S h = Return () (S', h') \<and> appended (ByMove x) = x" by simp
    then show ?thesis by (rule exI)
  qed
  then obtain a where "Append T a S h = Return () (S', h')" "appended a = x" by blast
  with Append_Return[OF assms, of a "()" S' h']
  show "Size S' = Size S + 1 \<and> Vector_at h' S' (Size S) = Some x \<and>
      (\<forall>i<Size S. Vector_at h' S' i = Vector_at h S i)"
    by (simp add: Size_def)
qed

theorem PushBack_spec_witness:
  "Vector_inv T_int \<lparr>blocks = [Some [Live 7]], limit = 100, leaked = []\<rparr>
     \<lparr>data_' = \<lparr>buffer_' = Ptr 0 0, capacity_' = 1\<rparr>, size_' = 1\<rparr> \<and>
   PushBack_copy T_int 8 \<lparr>data_' = \<lparr>buffer_' = Ptr 0 0, capacity_' = 1\<rparr>, size_' = 1\<rparr>
     \<lparr>blocks = [Some [Live 7]], limit = 100, leaked = []\<rparr> =
   Return ()
     (\<lparr>data_' = \<lparr>buffer_' = Ptr 1 0, capacity_' = 2\<rparr>, size_' = 2\<rparr>,
      \<lparr>blocks = [None, Some [Live 7, Live 8]], limit = 100, leaked = []\<rparr>) \<and>
   Size \<lparr>data_' = \<lparr>buffer_' = Ptr 1 0, capacity_' = 2\<rparr>, size_' = 2\<rparr> =
     Size \<lparr>data_' = \<lparr>buffer_' = Ptr 0 0, capacity_' = 1\<rparr>, size_' = 1\<rparr> + 1 \<and>
   Vector_at \<lparr>blocks = [None, Some [Live 7, Live 8]], limit = 100, leaked = []\<rparr>
     \<lparr>data_' = \<lparr>buffer_' = Ptr 1 0, capacity_' = 2\<rparr>, size_' = 2\<rparr> 1 = Some (8::int) \<and>
   Vector_exact \<lparr>blocks = [Some [Live (7::int)]], limit = 100, leaked = []\<rparr>
     \<lparr>data_' = \<lparr>buffer_' = Ptr 0 0, capacity_' = 1\<rparr>, size_' = 1\<rparr> \<and>
   storage_for T_int 2 \<lparr>blocks = [Some [Live 7]], limit = 100, leaked = []\<rparr> \<and>
   relocatable T_int \<lparr>blocks = [Some [Live 7]], limit = 100, leaked = []\<rparr>
     \<lparr>data_' = \<lparr>buffer_' = Ptr 0 0, capacity_' = 1\<rparr>, size_' = 1\<rparr> \<and>
   \<not> copy_ctor_throws T_int 8"
proof -
  let ?h = "\<lparr>blocks = [Some [Live (7::int)]], limit = 100, leaked = []\<rparr>"
  let ?S = "\<lparr>data_' = \<lparr>buffer_' = Ptr 0 0, capacity_' = 1\<rparr>, size_' = 1\<rparr>"
  let ?h' = "\<lparr>blocks = [None, Some [Live (7::int), Live 8]], limit = 100, leaked = []\<rparr>"
  let ?S' = "\<lparr>data_' = \<lparr>buffer_' = Ptr 1 0, capacity_' = 2\<rparr>, size_' = 2\<rparr>"
  have inv: "Vector_inv T_int ?h ?S"
    by (simp add: Vector_inv_def T_int_def block_at_def SIZE_MAX_def)
  have run: "PushBack_copy T_int 8 ?S ?h = Return () (?S', ?h')"
    by (simp add: append_defs T_int_def run_defs)
  have s: "Size ?S = 1" by (simp add: Size_def)
  have pre: "Vector_exact ?h ?S" "storage_for T_int 2 ?h" "relocatable T_int ?h ?S"
    "\<not> copy_ctor_throws T_int 8"
    by (simp_all add: Vector_exact_def storage_for_def relocatable_def relocation_throws_def
        T_int_def SIZE_MAX_def run_defs)
  from PushBack_spec[OF inv, of 8] run have
    "Size ?S' = Size ?S + 1 \<and> Vector_at ?h' ?S' (Size ?S) = Some 8 \<and>
      (\<forall>i<Size ?S. Vector_at ?h' ?S' i = Vector_at ?h ?S i)"
    by blast
  then have "Size ?S' = Size ?S + 1" "Vector_at ?h' ?S' (Size ?S) = Some 8" by blast+
  then show ?thesis using inv run s pre by simp
qed

text \<open>
  C5.  Whenever an append (by copy, by move or in place) returns on a vector that
  satisfies its invariant, the capacity is \<open>max(1, 2 * capacity)\<close> when the size was equal
  to the capacity, and unchanged otherwise.  Whenever a sequence of \<open>N\<close> appends returns on
  a default-constructed vector, the size is \<open>N\<close> and the capacity is 0 for \<open>N = 0\<close> and
  otherwise the power of two \<open>c\<close> with \<open>N \<le> c < 2 * N\<close>: 1, 2, 4, 4, 8, 8, 8, 8, 16, ...
  The sequence does return when no construction and no relocation of an appended value
  throws and \<open>operator new\<close> supplies storage for \<open>2 * N\<close> elements.
\<close>

theorem Append_capacity:
  "(Vector_inv T h S \<and> Append T a S h = Return () (S', h') \<longrightarrow>
      Capacity S' = (if Size S = Capacity S then max 1 (2 * Capacity S) else Capacity S)) \<and>
   (0 < sizeof_T T \<and> Appends T as Vector_default g = Return () (V, g') \<longrightarrow>
      Size V = length as \<and>
      (as = [] \<longrightarrow> Capacity V = 0) \<and>
      (as \<noteq> [] \<longrightarrow> (\<exists>k. Capacity V = 2 ^ k \<and> length as \<le> Capacity V \<and> Capacity V < 2 * length as))) \<and>
   (0 < sizeof_T T \<and> list_all (\<lambda>a. \<not> append_throws T a \<and> \<not> relocation_throws T (appended a)) as \<and>
    storage_for T (2 * length as) g \<longrightarrow>
      (\<exists>V g'. Appends T as Vector_default g = Return () (V, g')))"
proof (intro conjI impI)
  assume a: "0 < sizeof_T T \<and>
    list_all (\<lambda>a. \<not> append_throws T a \<and> \<not> relocation_throws T (appended a)) as \<and>
    storage_for T (2 * length as) g"
  then have inv: "Vector_inv T g Vector_default" by (simp add: Vector_inv_default)
  have ex: "Vector_exact g Vector_default" by simp
  have nt: "\<forall>a\<in>set as. \<not> append_throws T a \<and> \<not> relocation_throws T (appended a)"
    using a by (simp add: list_all_iff)
  have rel: "relocatable T g Vector_default"
    by (simp add: relocatable_def Vector_default_def)
  have f: "storage_for T (2 * (size_' Vector_default + length as)) g"
    using a by (simp add: Vector_default_def)
  show "\<exists>V g'. Appends T as Vector_default g = Return () (V, g')"
    using inv ex nt rel f by (rule Appends_succeeds)
next
  assume "Vector_inv T h S \<and> Append T a S h = Return () (S', h')"
  then have inv: "Vector_inv T h S" and A: "Append T a S h = Return () (S', h')" by simp_all
  from Append_Return[OF inv A]
  show "Capacity S' = (if Size S = Capacity S then max 1 (2 * Capacity S) else Capacity S)"
    by (simp add: Capacity_def Size_def RawMemory_Capacity_def)
next
  assume a: "0 < sizeof_T T \<and> Appends T as Vector_default g = Return () (V, g')"
  then have inv: "Vector_inv T g Vector_default" by (simp add: Vector_inv_default)
  have d0: "doubled (size_' Vector_default) (capacity_' (data_' Vector_default))"
    by (simp add: doubled_def Vector_default_def RawMemory_default_def)
  from a have R: "Appends T as Vector_default g = Return () (V, g')" by simp
  from Appends_Return[OF inv R d0] have
    sz: "size_' V = length as" and d: "doubled (length as) (capacity_' (data_' V))"
    by (auto simp: Vector_default_def)
  show "Size V = length as" using sz by (simp add: Size_def)
  show "as = [] \<Longrightarrow> Capacity V = 0"
    using d by (auto simp: doubled_def Capacity_def RawMemory_Capacity_def)
  show "as \<noteq> [] \<Longrightarrow> \<exists>k. Capacity V = 2 ^ k \<and> length as \<le> Capacity V \<and> Capacity V < 2 * length as"
    using d by (auto simp: doubled_def Capacity_def RawMemory_Capacity_def)
qed

theorem Append_capacity_witness:
  "Vector_inv T_int \<lparr>blocks = [Some [Live 7]], limit = 100, leaked = []\<rparr>
     \<lparr>data_' = \<lparr>buffer_' = Ptr 0 0, capacity_' = 1\<rparr>, size_' = 1\<rparr> \<and>
   Append T_int (ByCopy 8) \<lparr>data_' = \<lparr>buffer_' = Ptr 0 0, capacity_' = 1\<rparr>, size_' = 1\<rparr>
     \<lparr>blocks = [Some [Live 7]], limit = 100, leaked = []\<rparr> =
   Return ()
     (\<lparr>data_' = \<lparr>buffer_' = Ptr 1 0, capacity_' = 2\<rparr>, size_' = 2\<rparr>,
      \<lparr>blocks = [None, Some [Live 7, Live 8]], limit = 100, leaked = []\<rparr>) \<and>
   Capacity \<lparr>data_' = \<lparr>buffer_' = Ptr 1 0, capacity_' = 2\<rparr>, size_' = 2\<rparr> = max 1 (2 * 1) \<and>
   0 < sizeof_T T_int \<and>
   Appends T_int [ByCopy 1, ByMove 2, InPlace 3] Vector_default
     \<lparr>blocks = [], limit = 100, leaked = []\<rparr> =
   Return ()
     (\<lparr>data_' = \<lparr>buffer_' = Ptr 2 0, capacity_' = 4\<rparr>, size_' = 3\<rparr>,
      \<lparr>blocks = [None, None, Some [Live 1, Live 2, Live 3, Raw]], limit = 100, leaked = []\<rparr>) \<and>
   Size \<lparr>data_' = \<lparr>buffer_' = Ptr 2 0, capacity_' = 4\<rparr>, size_' = 3\<rparr> = 3 \<and>
   (\<exists>k. Capacity \<lparr>data_' = \<lparr>buffer_' = Ptr 2 0, capacity_' = 4\<rparr>, size_' = 3\<rparr> = 2 ^ k \<and>
        3 \<le> Capacity \<lparr>data_' = \<lparr>buffer_' = Ptr 2 0, capacity_' = 4\<rparr>, size_' = 3\<rparr> \<and>
        Capacity \<lparr>data_' = \<lparr>buffer_' = Ptr 2 0, capacity_' = 4\<rparr>, size_' = 3\<rparr> < 2 * 3) \<and>
   list_all (\<lambda>a. \<not> append_throws T_int a \<and> \<not> relocation_throws T_int (appended a))
     [ByCopy 1, ByMove 2, InPlace 3] \<and>
   storage_for T_int (2 * 3) \<lparr>blocks = [], limit = 100, leaked = []\<rparr>"
proof -
  let ?h = "\<lparr>blocks = [Some [Live (7::int)]], limit = 100, leaked = []\<rparr>"
  let ?S = "\<lparr>data_' = \<lparr>buffer_' = Ptr 0 0, capacity_' = 1\<rparr>, size_' = 1\<rparr>"
  let ?h' = "\<lparr>blocks = [None, Some [Live (7::int), Live 8]], limit = 100, leaked = []\<rparr>"
  let ?S' = "\<lparr>data_' = \<lparr>buffer_' = Ptr 1 0, capacity_' = 2\<rparr>, size_' = 2\<rparr>"
  let ?e = "\<lparr>blocks = [], limit = 100, leaked = ([]::int list)\<rparr>"
  let ?as = "[ByCopy (1::int), ByMove 2, InPlace 3]"
  let ?V = "\<lparr>data_' = \<lparr>buffer_' = Ptr 2 0, capacity_' = 4\<rparr>, size_' = 3\<rparr>"
  let ?g = "\<lparr>blocks = [None, None, Some [Live (1::int), Live 2, Live 3, Raw]], limit = 100, leaked = []\<rparr>"
  have inv: "Vector_inv T_int ?h ?S"
    by (simp add: Vector_inv_def T_int_def block_at_def SIZE_MAX_def)
  have run1: "Append T_int (ByCopy 8) ?S ?h = Return () (?S', ?h')"
    by (simp add: append_defs T_int_def run_defs)
  have sz: "0 < sizeof_T T_int" by (simp add: T_int_def)
  have run2: "Appends T_int ?as Vector_default ?e = Return () (?V, ?g)"
    by (simp add: append_defs T_int_def run_defs)
  have s: "Size ?S = 1" "Capacity ?S = 1" by (simp_all add: Size_def Capacity_def RawMemory_Capacity_def)
  note inst = Append_capacity[of T_int ?h ?S "ByCopy 8" ?S' ?h' ?as ?e ?V ?g]
  from inst inv run1 s have 1: "Capacity ?S' = max 1 (2 * 1)" by simp
  from inst sz run2 have 2: "Size ?V = 3"
    "\<exists>k. Capacity ?V = 2 ^ k \<and> length ?as \<le> Capacity ?V \<and> Capacity ?V < 2 * length ?as"
    by auto
  have pre: "list_all (\<lambda>a. \<not> append_throws T_int a \<and> \<not> relocation_throws T_int (appended a)) ?as"
    "storage_for T_int (2 * 3) ?e"
    by (simp_all add: storage_for_def relocation_throws_def T_int_def SIZE_MAX_def)
  show ?thesis using inv run1 1 sz run2 2 pre by simp
qed

text \<open>
  C4.  Copy assignment \<open>V = S\<close> of another vector \<open>S\<close> with \<open>S.Size() > V.Capacity()\<close>,
  both satisfying the invariant.  Either it returns, and then \<open>V\<close> has the size of \<open>S\<close> and
  at every index the element of \<open>S\<close>; or it leaves by an exception, and then \<open>V\<close> (buffer,
  capacity, size) and every block of the free store, hence every element of \<open>V\<close>, are as
  before, and no object has been lost.  It returns whenever the allocator can supply
  the storage and no copy of an element of \<open>S\<close> throws.
\<close>

theorem Vector_copy_assign_strong:
  assumes "Vector_inv T h V" and "Vector_inv T h S" and "Capacity V < Size S"
  shows
   "((\<exists>V' h'. Vector_copy_assign T True V S h = Return () (V', h') \<and> Size V' = Size S \<and>
        (\<forall>i<Size S. \<exists>x. Vector_at h S i = Some x \<and> Vector_at h' V' i = Some x)) \<or>
     (\<exists>e h'. Vector_copy_assign T True V S h = Throws e (V, h') \<and>
        (\<forall>b. block_at h' b = block_at h b) \<and> (\<forall>i. Vector_at h' V i = Vector_at h V i) \<and>
        leaked h' = leaked h)) \<and>
    (Size S * sizeof_T T \<le> limit h \<and>
     (\<forall>i<Size S. \<forall>x. Vector_at h S i = Some x \<longrightarrow> \<not> copy_ctor_throws T x) \<longrightarrow>
       (\<exists>V' h'. Vector_copy_assign T True V S h = Return () (V', h')))"
proof -
  let ?n = "size_' S"
  have gt: "capacity_' (data_' V) < ?n"
    using assms(3) by (simp add: Capacity_def Size_def RawMemory_Capacity_def)
  from copy_assign_swap[OF assms(1,2) gt] obtain xs where
    xs: "length xs = ?n" "\<forall>i<?n. Vector_at h S i = Some (xs ! i)"
    and alt: "if limit h < ?n * sizeof_T T \<or> (\<exists>x\<in>set xs. copy_ctor_throws T x)
      then \<exists>e h'. Vector_copy_assign T True V S h = Throws e (V, h') \<and>
             (\<forall>b. block_at h' b = block_at h b) \<and> leaked h' = leaked h \<and> limit h' = limit h
      else \<exists>V' h'. Vector_copy_assign T True V S h = Return () (V', h') \<and>
             size_' V' = ?n \<and> (\<forall>i<?n. Vector_at h' V' i = Some (xs ! i)) \<and>
             Vector_inv T h' V' \<and> leaked h' = leaked h"
    by blast
  have A: "(\<exists>V' h'. Vector_copy_assign T True V S h = Return () (V', h') \<and> Size V' = Size S \<and>
        (\<forall>i<Size S. \<exists>x. Vector_at h S i = Some x \<and> Vector_at h' V' i = Some x)) \<or>
     (\<exists>e h'. Vector_copy_assign T True V S h = Throws e (V, h') \<and>
        (\<forall>b. block_at h' b = block_at h b) \<and> (\<forall>i. Vector_at h' V i = Vector_at h V i) \<and>
        leaked h' = leaked h)"
  proof (cases "limit h < ?n * sizeof_T T \<or> (\<exists>x\<in>set xs. copy_ctor_throws T x)")
    case True
    with alt obtain e h' where t: "Vector_copy_assign T True V S h = Throws e (V, h')"
      "\<forall>b. block_at h' b = block_at h b" "leaked h' = leaked h"
      by auto
    have "\<forall>i. Vector_at h' V i = Vector_at h V i"
      using Vector_at_same_blocks[OF t(2)] by blast
    then show ?thesis using t by blast
  next
    case False
    with alt obtain V' h' where r: "Vector_copy_assign T True V S h = Return () (V', h')"
      "size_' V' = ?n" "\<forall>i<?n. Vector_at h' V' i = Some (xs ! i)"
      by auto
    have "\<forall>i<Size S. \<exists>x. Vector_at h S i = Some x \<and> Vector_at h' V' i = Some x"
      using xs(2) r(3) by (simp add: Size_def)
    then show ?thesis using r(1,2) by (auto simp: Size_def)
  qed
  have B: "Size S * sizeof_T T \<le> limit h \<and>
     (\<forall>i<Size S. \<forall>x. Vector_at h S i = Some x \<longrightarrow> \<not> copy_ctor_throws T x) \<longrightarrow>
       (\<exists>V' h'. Vector_copy_assign T True V S h = Return () (V', h'))"
  proof
    assume ok: "Size S * sizeof_T T \<le> limit h \<and>
     (\<forall>i<Size S. \<forall>x. Vector_at h S i = Some x \<longrightarrow> \<not> copy_ctor_throws T x)"
    have "\<forall>x\<in>set xs. \<not> copy_ctor_throws T x"
    proof
      fix x assume "x \<in> set xs"
      then obtain i where i: "i < length xs" "xs ! i = x" by (auto simp: in_set_conv_nth)
      then have "Vector_at h S i = Some x" using xs by simp
      then show "\<not> copy_ctor_throws T x" using ok i(1) xs(1) by (simp add: Size_def)
    qed
    then have "\<not> (limit h < ?n * sizeof_T T \<or> (\<exists>x\<in>set xs. copy_ctor_throws T x))"
      using ok by (auto simp: Size_def)
    with alt show "\<exists>V' h'. Vector_copy_assign T True V S h = Return () (V', h')" by auto
  qed
  show ?thesis using A B by blast
qed

theorem Vector_copy_assign_strong_witness:
  "Vector_inv T_obj \<lparr>blocks = [Some [Live 1], Some [Live 7, Live 13]], limit = 100, leaked = []\<rparr>
     \<lparr>data_' = \<lparr>buffer_' = Ptr 0 0, capacity_' = 1\<rparr>, size_' = 1\<rparr> \<and>
   Vector_inv T_obj \<lparr>blocks = [Some [Live 1], Some [Live 7, Live 13]], limit = 100, leaked = []\<rparr>
     \<lparr>data_' = \<lparr>buffer_' = Ptr 1 0, capacity_' = 2\<rparr>, size_' = 2\<rparr> \<and>
   Capacity \<lparr>data_' = \<lparr>buffer_' = Ptr 0 0, capacity_' = 1\<rparr>, size_' = 1\<rparr> <
     Size \<lparr>data_' = \<lparr>buffer_' = Ptr 1 0, capacity_' = 2\<rparr>, size_' = 2\<rparr> \<and>
   Vector_copy_assign T_obj True
     \<lparr>data_' = \<lparr>buffer_' = Ptr 0 0, capacity_' = 1\<rparr>, size_' = 1\<rparr>
     \<lparr>data_' = \<lparr>buffer_' = Ptr 1 0, capacity_' = 2\<rparr>, size_' = 2\<rparr>
     \<lparr>blocks = [Some [Live 1], Some [Live 7, Live 13]], limit = 100, leaked = []\<rparr> =
   Throws T_exception
     (\<lparr>data_' = \<lparr>buffer_' = Ptr 0 0, capacity_' = 1\<rparr>, size_' = 1\<rparr>,
      \<lparr>blocks = [Some [Live 1], Some [Live 7, Live 13], None], limit = 100, leaked = []\<rparr>) \<and>
   Vector_at \<lparr>blocks = [Some [Live 1], Some [Live 7, Live 13], None], limit = 100, leaked = []\<rparr>
     \<lparr>data_' = \<lparr>buffer_' = Ptr 0 0, capacity_' = 1\<rparr>, size_' = 1\<rparr> 0 = Some (1::int) \<and>
   Vector_copy_assign T_obj True
     \<lparr>data_' = \<lparr>buffer_' = Ptr 0 0, capacity_' = 1\<rparr>, size_' = 1\<rparr>
     \<lparr>data_' = \<lparr>buffer_' = Ptr 1 0, capacity_' = 2\<rparr>, size_' = 2\<rparr>
     \<lparr>blocks = [Some [Live 1], Some [Live 7, Live 8]], limit = 100, leaked = []\<rparr> =
   Return ()
     (\<lparr>data_' = \<lparr>buffer_' = Ptr 2 0, capacity_' = 2\<rparr>, size_' = 2\<rparr>,
      \<lparr>blocks = [None, Some [Live 7, Live 8], Some [Live 7, Live 8]], limit = 100, leaked = []\<rparr>) \<and>
   Vector_at \<lparr>blocks = [None, Some [Live 7, Live 8], Some [Live 7, Live 8]], limit = 100, leaked = []\<rparr>
     \<lparr>data_' = \<lparr>buffer_' = Ptr 2 0, capacity_' = 2\<rparr>, size_' = 2\<rparr> 1 = Some (8::int)"
proof -
  let ?h = "\<lparr>blocks = [Some [Live (1::int)], Some [Live 7, Live 13]], limit = 100, leaked = []\<rparr>"
  let ?g = "\<lparr>blocks = [Some [Live (1::int)], Some [Live 7, Live 8]], limit = 100, leaked = []\<rparr>"
  let ?V = "\<lparr>data_' = \<lparr>buffer_' = Ptr 0 0, capacity_' = 1\<rparr>, size_' = 1\<rparr>"
  let ?S = "\<lparr>data_' = \<lparr>buffer_' = Ptr 1 0, capacity_' = 2\<rparr>, size_' = 2\<rparr>"
  let ?h' = "\<lparr>blocks = [Some [Live (1::int)], Some [Live 7, Live 13], None], limit = 100, leaked = []\<rparr>"
  let ?V' = "\<lparr>data_' = \<lparr>buffer_' = Ptr 2 0, capacity_' = 2\<rparr>, size_' = 2\<rparr>"
  let ?g' = "\<lparr>blocks = [None, Some [Live (7::int), Live 8], Some [Live 7, Live 8]], limit = 100, leaked = []\<rparr>"
  have invV: "Vector_inv T_obj ?h ?V" "Vector_inv T_obj ?g ?V"
    by (simp_all add: Vector_inv_def T_obj_def block_at_def SIZE_MAX_def)
  have invS: "Vector_inv T_obj ?h ?S" "Vector_inv T_obj ?g ?S"
    by (simp_all add: Vector_inv_def T_obj_def block_at_def SIZE_MAX_def)
  have lt: "Capacity ?V < Size ?S" by (simp add: Capacity_def Size_def RawMemory_Capacity_def)
  have run1: "Vector_copy_assign T_obj True ?V ?S ?h = Throws T_exception (?V, ?h')"
    by (simp add: Vector_copy_assign_def T_obj_def run_defs)
  have run2: "Vector_copy_assign T_obj True ?V ?S ?g = Return () (?V', ?g')"
    by (simp add: Vector_copy_assign_def T_obj_def run_defs)
  have old: "Vector_at ?h ?V 0 = Some 1" "Vector_at ?g ?S 1 = Some 8" by (simp_all add: run_defs)
  from Vector_copy_assign_strong[OF invV(1) invS(1) lt] run1
  have "\<forall>i. Vector_at ?h' ?V i = Vector_at ?h ?V i" by simp
  then have 1: "Vector_at ?h' ?V 0 = Some 1" using old(1) by simp
  from Vector_copy_assign_strong[OF invV(2) invS(2) lt] run2
  have "\<forall>i<Size ?S. \<exists>x. Vector_at ?g ?S i = Some x \<and> Vector_at ?g' ?V' i = Some x" by simp
  then have "1 < Size ?S \<longrightarrow> (\<exists>x. Vector_at ?g ?S 1 = Some x \<and> Vector_at ?g' ?V' 1 = Some x)"
    by blast
  then have 2: "Vector_at ?g' ?V' 1 = Some 8" using old(2) by (auto simp: Size_def)
  show ?thesis using invV(1) invS(1) lt run1 1 run2 2 by simp
qed

text \<open>
  C1.  \<open>Emplace(end(), x)\<close> on a non-empty vector with spare capacity does not yield the
  old contents followed by \<open>x\<close>.  For a vector of strings built by \<open>Reserve(2)\<close> and
  \<open>PushBack("a")\<close>, \<open>Emplace(end(), "x")\<close> moves the last element into the free slot and then
  calls \<open>std::move_backward(begin() + 1, end() - 1, end())\<close>, whose first argument lies
  behind its second: the behaviour is undefined.  The other two statements of that
  path, taken alone, leave the moved-from (empty) string in the place of \<open>"a"\<close> and \<open>"x"\<close>
  behind it.  Without the \<open>Reserve\<close> the same call goes through the growth path and yields
  \<open>"a"\<close>, \<open>"x"\<close>.
\<close>

theorem Emplace_at_end_with_spare_capacity:
  "and_then (Reserve T_str 2 Vector_default \<lparr>blocks = [], limit = 100, leaked = []\<rparr>)
     (\<lambda>u (v, h). and_then (PushBack_copy T_str ''a'' v h)
     (\<lambda>u (v, h). Emplace T_str (Vector_end v) (Some ''x'') v h)) = Undefined \<and>
   and_then (Reserve T_str 2 Vector_default \<lparr>blocks = [], limit = 100, leaked = []\<rparr>)
     (\<lambda>u (v, h). and_then (PushBack_copy T_str ''a'' v h)
     (\<lambda>u (v, h). with_this v
        (and_then (move_construct T_str (ptr_sub (Vector_end v) 1) (Vector_end v) h)
        (\<lambda>u h1. move_assign_from T_str ''x'' (Vector_end v) h1)))) =
   Return ()
     (\<lparr>data_' = \<lparr>buffer_' = Ptr 0 0, capacity_' = 2\<rparr>, size_' = 1\<rparr>,
      \<lparr>blocks = [Some [Live [], Live ''x'']], limit = 100, leaked = []\<rparr>) \<and>
   and_then (PushBack_copy T_str ''a'' Vector_default \<lparr>blocks = [], limit = 100, leaked = []\<rparr>)
     (\<lambda>u (v, h). Emplace T_str (Vector_end v) (Some ''x'') v h) =
   Return (Ptr 1 1)
     (\<lparr>data_' = \<lparr>buffer_' = Ptr 1 0, capacity_' = 2\<rparr>, size_' = 2\<rparr>,
      \<lparr>blocks = [None, Some [Live ''a'', Live ''x'']], limit = 100, leaked = []\<rparr>)"
  by (simp add: Emplace_def append_defs T_str_def run_defs)

text \<open>
  C2.  When the relocation throws during a growing append, the element that was
  constructed into the new buffer before the relocation is not destroyed before the
  buffer is released.  For a vector of \<open>T_obj\<close> holding 13, \<open>PushBack(5)\<close> constructs 5 in
  the new buffer, the copy of 13 throws, and the new buffer is released with 5 still
  alive in it; the vector and its own buffer are as before.
\<close>

theorem PushBack_growth_loses_new_element:
  "and_then (EmplaceBack T_obj (Some 13) Vector_default \<lparr>blocks = [], limit = 100, leaked = []\<rparr>)
     (\<lambda>p (v, h). PushBack_copy T_obj 5 v h) =
   Throws T_exception
     (\<lparr>data_' = \<lparr>buffer_' = Ptr 0 0, capacity_' = 1\<rparr>, size_' = 1\<rparr>,
      \<lparr>blocks = [Some [Live 13], None], limit = 100, leaked = [5]\<rparr>)"
  by (simp add: append_defs T_obj_def run_defs)

end
